theory Spec2Isabelle
  imports Main
begin

section \<open>The Paragraph block tool (class Paragraph) and the part of the DOM it uses\<close>

text \<open>
  The class keeps its text and its tags in the DOM: \<^verbatim>\<open>set data\<close> assigns two
  \<^verbatim>\<open>innerHTML\<close> properties (the tags as one string of \<^verbatim>\<open>span\<close> markup built by a
  template literal), \<^verbatim>\<open>get data\<close> reads \<^verbatim>\<open>innerHTML\<close> back. What a read returns
  after a write is decided by the browser's fragment parser and serialiser, so both are
  part of the embedding.

  JavaScript strings are modelled as \<^typ>\<open>string\<close>; a \<^typ>\<open>char\<close> stands for the
  code unit of the same number, so the strings covered are those over U+0000 .. U+00FF.
\<close>

subsection \<open>DOM content\<close>

text \<open>
  The content of the editable element is modelled as character data and line breaks (the
  tool's sanitizer rule keeps \<^verbatim>\<open>br\<close> only); the content of the tag strip as the same,
  plus one level of \<^verbatim>\<open>span\<close> elements, each with the value of its \<^verbatim>\<open>class\<close> attribute.
\<close>

datatype inline = Text string | Br

datatype node = Inline inline | Span string "inline list"

definition apos :: char where
  "apos = CHR 0x27"

definition NUL :: char where
  "NUL = CHR 0x00"

definition CR :: char where
  "CR = CHR 0x0D"

definition LF :: char where
  "LF = CHR 0x0A"

definition NBSP :: char where
  "NBSP = CHR 0xA0"

subsection \<open>Serialising: the \<^verbatim>\<open>innerHTML\<close> getter\<close>

text \<open>
  The HTML fragment serialisation algorithm: the data of a Text node is escaped
  (\<^verbatim>\<open>&\<close>, U+00A0, \<^verbatim>\<open><\<close> and \<^verbatim>\<open>>\<close> become \<^verbatim>\<open>&amp;\<close>, \<^verbatim>\<open>&nbsp;\<close>, \<^verbatim>\<open>&lt;\<close>,
  \<^verbatim>\<open>&gt;\<close>), a \<^verbatim>\<open>br\<close> element is written as its start tag.
\<close>

definition escape_char :: "char \<Rightarrow> string" where
  "escape_char c =
     (if c = CHR ''&'' then ''&amp;''
      else if c = NBSP then ''&nbsp;''
      else if c = CHR ''<'' then ''&lt;''
      else if c = CHR ''>'' then ''&gt;''
      else [c])"

definition escape :: "string \<Rightarrow> string" where
  "escape s = concat (map escape_char s)"

fun serialize_inline :: "inline \<Rightarrow> string" where
  "serialize_inline (Text s) = escape s"
| "serialize_inline Br = ''<br>''"

definition innerHTML :: "inline list \<Rightarrow> string" where
  "innerHTML cs = concat (map serialize_inline cs)"

text \<open>\<^verbatim>\<open>textContent\<close>: the data of the Text nodes, in order.\<close>

fun text_data :: "inline \<Rightarrow> string" where
  "text_data (Text s) = s"
| "text_data Br = []"

definition textContent :: "inline list \<Rightarrow> string" where
  "textContent cs = concat (map text_data cs)"

subsection \<open>Parsing: the \<^verbatim>\<open>innerHTML\<close> setter\<close>

text \<open>
  The fragment parser is modelled on the markup that the tool writes and that the
  serialiser above produces: character data, the character references \<^verbatim>\<open>&amp;\<close>,
  \<^verbatim>\<open>&lt;\<close>, \<^verbatim>\<open>&gt;\<close>, \<^verbatim>\<open>&nbsp;\<close>, an \<^verbatim>\<open>&\<close> that starts no reference, the tags \<^verbatim>\<open><br>\<close> and \<^verbatim>\<open></span>\<close>, and a
  \<^verbatim>\<open>span\<close> start tag that begins with a single-quoted \<^verbatim>\<open>class\<close> attribute.

  In character data a NUL is dropped, and a carriage return becomes a line feed (one line
  feed for the pair carriage return, line feed).

  In the start tag the value of \<^verbatim>\<open>class\<close> ends at the first apostrophe. From there to
  the next \<^verbatim>\<open>>\<close> the tokenizer reads attribute names: whatever stands there adds
  attributes that nothing here looks at and leaves the \<^verbatim>\<open>class\<close> alone, unless it has
  an \<^verbatim>\<open>=\<close>, which would start an attribute value. This is what a tag identifier with
  an apostrophe makes of the template literal of \<^verbatim>\<open>set data\<close>.

  On every other input (another tag or character reference, an \<^verbatim>\<open>&\<close>, a NUL or a
  carriage return in the value of \<^verbatim>\<open>class\<close>, an \<^verbatim>\<open>=\<close> after that value, a
  \<^verbatim>\<open>span\<close> inside a \<^verbatim>\<open>span\<close>) the result is \<open>None\<close>: the model says nothing
  about what the browser builds there.
\<close>

datatype token = TChar char | TBr | TOpen string | TClose

definition after_prefix :: "string \<Rightarrow> string \<Rightarrow> string option" where
  "after_prefix p s = (if take (length p) s = p then Some (drop (length p) s) else None)"

definition attr_char :: "char \<Rightarrow> bool" where
  "attr_char c = (c \<noteq> apos \<and> c \<noteq> CHR ''&'' \<and> c \<noteq> NUL \<and> c \<noteq> CR)"

text \<open>
  After \<^verbatim>\<open>&\<close>, an ASCII letter or digit or \<^verbatim>\<open>#\<close> starts a character reference;
  before anything else, and at the end of the input, the \<^verbatim>\<open>&\<close> is character data.
\<close>

definition ascii_alphanumeric :: "char \<Rightarrow> bool" where
  "ascii_alphanumeric c =
     (let n = (of_char c :: nat)
      in (48 \<le> n \<and> n \<le> 57) \<or> (65 \<le> n \<and> n \<le> 90) \<or> (97 \<le> n \<and> n \<le> 122))"

definition starts_reference :: "string \<Rightarrow> bool" where
  "starts_reference s =
     (case s of [] \<Rightarrow> False | d # r \<Rightarrow> ascii_alphanumeric d \<or> d = CHR ''#'')"

function tokenize :: "string \<Rightarrow> token list option" where
  "tokenize [] = Some []"
| "tokenize (c # s) =
     (if c = CHR ''<'' then
        (case after_prefix ''br>'' s of
           Some r \<Rightarrow> map_option (Cons TBr) (tokenize r)
         | None \<Rightarrow>
        (case after_prefix ''/span>'' s of
           Some r \<Rightarrow> map_option (Cons TClose) (tokenize r)
         | None \<Rightarrow>
        (case after_prefix (''span class='' @ [apos]) s of
           Some r \<Rightarrow>
             (case dropWhile (\<lambda>x. x \<noteq> apos) r of
                [] \<Rightarrow> None
              | q # r1 \<Rightarrow>
                  (case dropWhile (\<lambda>x. x \<noteq> CHR ''>'') r1 of
                     [] \<Rightarrow> None
                   | g # r2 \<Rightarrow>
                       if list_all attr_char (takeWhile (\<lambda>x. x \<noteq> apos) r)
                          \<and> CHR ''='' \<notin> set (takeWhile (\<lambda>x. x \<noteq> CHR ''>'') r1)
                       then map_option (Cons (TOpen (takeWhile (\<lambda>x. x \<noteq> apos) r)))
                              (tokenize r2)
                       else None))
         | None \<Rightarrow> None)))
      else if c = CHR ''&'' then
        (case after_prefix ''amp;'' s of
           Some r \<Rightarrow> map_option (Cons (TChar (CHR ''&''))) (tokenize r)
         | None \<Rightarrow>
        (case after_prefix ''lt;'' s of
           Some r \<Rightarrow> map_option (Cons (TChar (CHR ''<''))) (tokenize r)
         | None \<Rightarrow>
        (case after_prefix ''gt;'' s of
           Some r \<Rightarrow> map_option (Cons (TChar (CHR ''>''))) (tokenize r)
         | None \<Rightarrow>
        (case after_prefix ''nbsp;'' s of
           Some r \<Rightarrow> map_option (Cons (TChar NBSP)) (tokenize r)
         | None \<Rightarrow>
             if starts_reference s then None
             else map_option (Cons (TChar (CHR ''&''))) (tokenize s)))))
      else if c = NUL then tokenize s
      else if c = CR then
        (if take 1 s = [LF] then tokenize s
         else map_option (Cons (TChar LF)) (tokenize s))
      else map_option (Cons (TChar c)) (tokenize s))"
  by pat_completeness auto
termination
proof (relation "measure length")
  fix c s r q r1 g r2
  assume "after_prefix (''span class='' @ [apos]) s = Some r"
    and "dropWhile (\<lambda>x. x \<noteq> apos) r = q # r1"
    and "dropWhile (\<lambda>x. x \<noteq> CHR ''>'') r1 = g # r2"
  then have "length r \<le> length s"
    and "length (dropWhile (\<lambda>x. x \<noteq> apos) r) = Suc (length r1)"
    and "length (dropWhile (\<lambda>x. x \<noteq> CHR ''>'') r1) = Suc (length r2)"
    by (auto simp: after_prefix_def split: if_splits)
  moreover have "length (dropWhile (\<lambda>x. x \<noteq> apos) r) \<le> length r"
    by (rule length_dropWhile_le)
  moreover have "length (dropWhile (\<lambda>x. x \<noteq> CHR ''>'') r1) \<le> length r1"
    by (rule length_dropWhile_le)
  ultimately show "(r2, c # s) \<in> measure length"
    by simp
qed (auto simp: after_prefix_def split: if_splits)

text \<open>
  Tree construction. Characters become Text nodes; a \<^verbatim>\<open>span\<close> start tag opens an
  element that the next \<^verbatim>\<open></span>\<close> or the end of the input closes; an end tag with no
  open \<^verbatim>\<open>span\<close> is ignored. Adjacent characters end up in one Text node
  (\<open>merge_text\<close>).
\<close>

fun merge_text :: "inline list \<Rightarrow> inline list" where
  "merge_text [] = []"
| "merge_text (Br # cs) = Br # merge_text cs"
| "merge_text (Text s # cs) =
     (if s = [] then merge_text cs
      else (case merge_text cs of
              Text t # ds \<Rightarrow> Text (s @ t) # ds
            | _ \<Rightarrow> Text s # merge_text cs))"

fun merge_nodes :: "node list \<Rightarrow> node list" where
  "merge_nodes [] = []"
| "merge_nodes (Span v cs # ns) = Span v (merge_text cs) # merge_nodes ns"
| "merge_nodes (Inline Br # ns) = Inline Br # merge_nodes ns"
| "merge_nodes (Inline (Text s) # ns) =
     (if s = [] then merge_nodes ns
      else (case merge_nodes ns of
              Inline (Text t) # ms \<Rightarrow> Inline (Text (s @ t)) # ms
            | _ \<Rightarrow> Inline (Text s) # merge_nodes ns))"

fun build_inline :: "token list \<Rightarrow> inline list option" where
  "build_inline [] = Some []"
| "build_inline (TChar c # ts) = map_option (Cons (Text [c])) (build_inline ts)"
| "build_inline (TBr # ts) = map_option (Cons Br) (build_inline ts)"
| "build_inline (TOpen v # ts) = None"
| "build_inline (TClose # ts) = build_inline ts"

fun build :: "(string \<times> inline list) option \<Rightarrow> token list \<Rightarrow> node list option" where
  "build None [] = Some []"
| "build (Some (v, cs)) [] = Some [Span v (rev cs)]"
| "build None (TChar c # ts) = map_option (Cons (Inline (Text [c]))) (build None ts)"
| "build None (TBr # ts) = map_option (Cons (Inline Br)) (build None ts)"
| "build None (TOpen v # ts) = build (Some (v, [])) ts"
| "build None (TClose # ts) = build None ts"
| "build (Some (v, cs)) (TChar c # ts) = build (Some (v, Text [c] # cs)) ts"
| "build (Some (v, cs)) (TBr # ts) = build (Some (v, Br # cs)) ts"
| "build (Some (v, cs)) (TOpen w # ts) = None"
| "build (Some (v, cs)) (TClose # ts) = map_option (Cons (Span v (rev cs))) (build None ts)"

definition parse_inline :: "string \<Rightarrow> inline list option" where
  "parse_inline s =
     (case tokenize s of
        None \<Rightarrow> None
      | Some ts \<Rightarrow> map_option merge_text (build_inline ts))"

definition parse_nodes :: "string \<Rightarrow> node list option" where
  "parse_nodes s =
     (case tokenize s of
        None \<Rightarrow> None
      | Some ts \<Rightarrow> map_option merge_nodes (build None ts))"

text \<open>
  \<^verbatim>\<open>querySelectorAll('.ce-tag')\<close>: the elements whose class attribute, split at ASCII
  whitespace, has the token \<^verbatim>\<open>ce-tag\<close>, in document order.
\<close>

definition ascii_whitespace :: "char \<Rightarrow> bool" where
  "ascii_whitespace c =
     (c = CHR 0x09 \<or> c = CHR 0x0A \<or> c = CHR 0x0C \<or> c = CHR 0x0D \<or> c = CHR 0x20)"

fun split_tokens :: "string \<Rightarrow> string \<Rightarrow> string list" where
  "split_tokens cur [] = (if cur = [] then [] else [cur])"
| "split_tokens cur (c # s) =
     (if ascii_whitespace c
      then (if cur = [] then split_tokens [] s else cur # split_tokens [] s)
      else split_tokens (cur @ [c]) s)"

definition class_tokens :: "string \<Rightarrow> string list" where
  "class_tokens v = split_tokens [] v"

fun querySelectorAll_ce_tag :: "node list \<Rightarrow> inline list list" where
  "querySelectorAll_ce_tag [] = []"
| "querySelectorAll_ce_tag (Inline x # ns) = querySelectorAll_ce_tag ns"
| "querySelectorAll_ce_tag (Span v cs # ns) =
     (if ''ce-tag'' \<in> set (class_tokens v)
      then cs # querySelectorAll_ce_tag ns
      else querySelectorAll_ce_tag ns)"

subsection \<open>JavaScript values and built-ins used by the class\<close>

text \<open>
  A property that may be missing is an \<open>option\<close> (\<open>None\<close> is \<^verbatim>\<open>undefined\<close>). An
  operation returns \<open>Inl TypeError\<close> where the JavaScript throws, \<open>Inl DOMException\<close>
  where a DOM call throws, and \<open>Inl Unmodelled\<close> where it assigns to \<^verbatim>\<open>innerHTML\<close>
  markup outside the modelled part of HTML.
\<close>

datatype error = TypeError | DOMException | Unmodelled

text \<open>\<^verbatim>\<open>x || ''\<close> for a string or undefined \<open>x\<close>: the empty string is falsy as well.\<close>

definition or_empty_string :: "string option \<Rightarrow> string" where
  "or_empty_string x = (case x of None \<Rightarrow> [] | Some s \<Rightarrow> (if s = [] then [] else s))"

text \<open>\<^verbatim>\<open>x || []\<close> for an array or undefined \<open>x\<close>: every array is truthy.\<close>

definition or_empty_array :: "'a list option \<Rightarrow> 'a list" where
  "or_empty_array x = (case x of None \<Rightarrow> [] | Some xs \<Rightarrow> xs)"

text \<open>\<^verbatim>\<open>a + b\<close> with a string \<open>a\<close>: \<open>b\<close> is converted to a string.\<close>

definition ToString :: "string option \<Rightarrow> string" where
  "ToString x = (case x of None \<Rightarrow> ''undefined'' | Some s \<Rightarrow> s)"

text \<open>\<^verbatim>\<open>[...x]\<close>: spreading \<^verbatim>\<open>undefined\<close> throws.\<close>

definition spread :: "'a list option \<Rightarrow> error + 'a list" where
  "spread x = (case x of None \<Rightarrow> Inl TypeError | Some xs \<Rightarrow> Inr xs)"

text \<open>\<^verbatim>\<open>[...new Set(xs)]\<close>: a Set keeps its elements in insertion order, each once.\<close>

fun Set_add_all :: "'a list \<Rightarrow> 'a list \<Rightarrow> 'a list" where
  "Set_add_all acc [] = acc"
| "Set_add_all acc (x # xs) = Set_add_all (if x \<in> set acc then acc else acc @ [x]) xs"

definition new_Set :: "'a list \<Rightarrow> 'a list" where
  "new_Set xs = Set_add_all [] xs"

text \<open>\<^verbatim>\<open>xs.indexOf(x)\<close> and \<^verbatim>\<open>xs.splice(start, 1)\<close> (a negative start counts from the end).\<close>

fun indexOf :: "'a list \<Rightarrow> 'a \<Rightarrow> int" where
  "indexOf [] x = - 1"
| "indexOf (y # ys) x =
     (if y = x then 0 else (let i = indexOf ys x in if i < 0 then - 1 else i + 1))"

definition splice1 :: "int \<Rightarrow> 'a list \<Rightarrow> 'a list" where
  "splice1 start xs =
     (let n = int (length xs);
          k = (if start < 0 then max (n + start) 0 else min start n)
      in take (nat k) xs @ drop (nat k + 1) xs)"

text \<open>\<^verbatim>\<open>s.trim()\<close>: white space and line terminators among the code units modelled.\<close>

definition js_whitespace :: "char \<Rightarrow> bool" where
  "js_whitespace c =
     (c = CHR 0x09 \<or> c = CHR 0x0A \<or> c = CHR 0x0B \<or> c = CHR 0x0C \<or> c = CHR 0x0D
      \<or> c = CHR 0x20 \<or> c = NBSP)"

definition trim :: "string \<Rightarrow> string" where
  "trim s = rev (dropWhile js_whitespace (rev (dropWhile js_whitespace s)))"

text \<open>
  \<^verbatim>\<open>classList.add(t1, t2)\<close>: throws on an empty token or one with ASCII white space,
  adds the others unless present.
\<close>

definition valid_token :: "string \<Rightarrow> bool" where
  "valid_token t = (t \<noteq> [] \<and> \<not> list_ex ascii_whitespace t)"

definition classList_add :: "string list \<Rightarrow> string list \<Rightarrow> error + string list" where
  "classList_add ts cl =
     (if list_all valid_token ts then Inr (Set_add_all cl ts) else Inl DOMException)"

subsection \<open>The data of the class\<close>

record ParagraphData =
  "text" :: "string option"
  tags :: "string list option"

record ParagraphConfig =
  placeholder :: "string option"
  preserveBlank :: "bool option"

record editor_api =
  styles_block :: string
  i18n_t :: "string \<Rightarrow> string"

record params =
  data :: ParagraphData
  config :: ParagraphConfig
  api :: editor_api
  readOnly :: bool

text \<open>
  An element made by \<^verbatim>\<open>document.createElement\<close>: \<open>node_id\<close> is its identity (two
  references are the same object iff the ids agree).
\<close>

record 'c element =
  node_id :: nat
  classList :: "string list"
  contentEditable :: bool
  dataset_placeholder :: "string option"
  keyup_listener :: bool
  childNodes :: 'c

record Paragraph =
  this_api :: editor_api
  this_readOnly :: bool
  this_CSS_block :: string
  this_CSS_wrapper :: string
  this_onKeyUp_bound :: bool
  this_placeholder :: string
  this_data :: ParagraphData
  this_textElement :: "inline list element"
  this_containerElement :: "nat list element"
  this_tagsElement :: "node list element"
  this_preserveBlank :: bool

record view =
  textElement :: "inline list element"
  container :: "nat list element"
  tagsElement :: "node list element"

record KeyboardEvent =
  code :: string

text \<open>\<open>detail_data\<close>: the child nodes of the pasted element \<^verbatim>\<open>event.detail.data\<close>.\<close>

record PasteEvent =
  detail_data :: "inline list"

subsection \<open>The methods\<close>

definition DEFAULT_PLACEHOLDER :: string where
  "DEFAULT_PLACEHOLDER = []"

definition createElement :: "nat \<Rightarrow> 'c \<Rightarrow> 'c element" where
  "createElement i c =
     \<lparr>node_id = i, classList = [], contentEditable = False, dataset_placeholder = None,
      keyup_listener = False, childNodes = c\<rparr>"

text \<open>
  \<^verbatim>\<open>drawView()\<close>; \<open>doc\<close> is the next unused element identity of the document. It reads
  \<^verbatim>\<open>this._CSS\<close>, \<^verbatim>\<open>this.api.i18n\<close>, \<^verbatim>\<open>this._placeholder\<close> and \<^verbatim>\<open>this.readOnly\<close>, which
  are its arguments here.
\<close>

definition drawView :: "nat \<Rightarrow> string \<Rightarrow> string \<Rightarrow> editor_api \<Rightarrow> string \<Rightarrow> bool \<Rightarrow> error + view" where
  "drawView doc wrapper block a ph ro =
     (let textElement0 = createElement doc []
      in (case classList_add [wrapper, block] (classList textElement0) of
            Inl e \<Rightarrow> Inl e
          | Inr cl \<Rightarrow>
              (let textElement1 = textElement0
                     \<lparr>classList := cl, contentEditable := False,
                      dataset_placeholder := Some (i18n_t a ph)\<rparr>;
                   textElement2 = (if \<not> ro
                      then textElement1\<lparr>contentEditable := True, keyup_listener := True\<rparr>
                      else textElement1);
                   tagsElement0 = createElement (doc + 1) []
               in (case classList_add [''ce-tags''] (classList tagsElement0) of
                     Inl e \<Rightarrow> Inl e
                   | Inr cl' \<Rightarrow>
                       (let tagsElement1 = tagsElement0\<lparr>classList := cl'\<rparr>;
                            container0 = createElement (doc + 2) [];
                            container1 = container0
                              \<lparr>childNodes := childNodes container0 @ [node_id textElement2]\<rparr>;
                            container2 = container1
                              \<lparr>childNodes := childNodes container1 @ [node_id tagsElement1]\<rparr>
                        in Inr \<lparr>textElement = textElement2, container = container2,
                                tagsElement = tagsElement1\<rparr>)))))"

text \<open>
  \<^verbatim>\<open>save\<close>, \<^verbatim>\<open>renderSettings\<close> and the static getters are not used by the statements
  below and are not embedded.

  \<^verbatim>\<open>get data()\<close>: overwrites the two properties of \<^verbatim>\<open>this._data\<close> and returns it.
\<close>

definition get_data :: "Paragraph \<Rightarrow> ParagraphData \<times> Paragraph" where
  "get_data this =
     (let d = (this_data this)
            \<lparr>text := Some (innerHTML (childNodes (this_textElement this))),
             tags := Some (map innerHTML
                       (querySelectorAll_ce_tag (childNodes (this_tagsElement this))))\<rparr>
      in (d, this\<lparr>this_data := d\<rparr>))"

text \<open>The template literal of \<^verbatim>\<open>set data\<close>.\<close>

definition tag_markup :: "string \<Rightarrow> string" where
  "tag_markup tag =
     ''<span class='' @ [apos] @ ''ce-tag tag-'' @ tag @ [apos] @ ''>'' @ tag @ ''</span>''"

text \<open>\<^verbatim>\<open>set data(data)\<close>; \<open>None\<close> is a nullish argument.\<close>

definition set_data :: "ParagraphData option \<Rightarrow> Paragraph \<Rightarrow> error + Paragraph" where
  "set_data d this =
     (let dat = (case d of None \<Rightarrow> \<lparr>text = None, tags = None\<rparr> | Some x \<Rightarrow> x)
      in (case parse_inline (or_empty_string (text dat)) of
            None \<Rightarrow> Inl Unmodelled
          | Some tc \<Rightarrow>
              (case parse_nodes (concat (map tag_markup (or_empty_array (tags dat)))) of
                 None \<Rightarrow> Inl Unmodelled
               | Some ns \<Rightarrow>
                   Inr (this\<lparr>this_data := dat,
                             this_textElement := (this_textElement this)\<lparr>childNodes := tc\<rparr>,
                             this_tagsElement := (this_tagsElement this)\<lparr>childNodes := ns\<rparr>\<rparr>))))"

text \<open>The constructor; \<open>doc\<close> as in \<open>drawView\<close>.\<close>

definition constructor :: "nat \<Rightarrow> params \<Rightarrow> error + Paragraph" where
  "constructor doc p =
     (let ph = (case placeholder (config p) of
                  None \<Rightarrow> DEFAULT_PLACEHOLDER
                | Some s \<Rightarrow> (if s = [] then DEFAULT_PLACEHOLDER else s))
      in (case drawView doc ''ce-paragraph'' (styles_block (api p)) (api p) ph (readOnly p) of
            Inl e \<Rightarrow> Inl e
          | Inr v \<Rightarrow>
              set_data (Some \<lparr>text = Some (or_empty_string (text (data p))),
                              tags = Some (or_empty_array (tags (data p)))\<rparr>)
                \<lparr>this_api = api p, this_readOnly = readOnly p,
                 this_CSS_block = styles_block (api p), this_CSS_wrapper = ''ce-paragraph'',
                 this_onKeyUp_bound = (\<not> readOnly p),
                 this_placeholder = ph,
                 this_data = \<lparr>text = None, tags = None\<rparr>,
                 this_textElement = textElement v,
                 this_containerElement = container v,
                 this_tagsElement = tagsElement v,
                 this_preserveBlank = (case preserveBlank (config p) of
                                         None \<Rightarrow> False | Some b \<Rightarrow> b)\<rparr>))"

text \<open>\<^verbatim>\<open>onKeyUp(e)\<close>.\<close>

definition onKeyUp :: "KeyboardEvent \<Rightarrow> Paragraph \<Rightarrow> error + Paragraph" where
  "onKeyUp e this =
     (if code e \<noteq> ''Backspace'' \<and> code e \<noteq> ''Delete'' then Inr this
      else if textContent (childNodes (this_textElement this)) = []
      then (case parse_inline [] of
              None \<Rightarrow> Inl Unmodelled
            | Some tc \<Rightarrow>
                Inr (this\<lparr>this_textElement := (this_textElement this)\<lparr>childNodes := tc\<rparr>\<rparr>))
      else Inr this)"

text \<open>\<^verbatim>\<open>render()\<close>: the element returned, and the block, which it does not touch.\<close>

definition render :: "Paragraph \<Rightarrow> nat list element \<times> Paragraph" where
  "render this = (this_containerElement this, this)"

text \<open>
  \<^verbatim>\<open>merge(data)\<close>: the getter runs twice, for \<^verbatim>\<open>this.data.text\<close> and for
  \<^verbatim>\<open>this.data.tags\<close>.
\<close>

definition merge :: "ParagraphData \<Rightarrow> Paragraph \<Rightarrow> error + Paragraph" where
  "merge dat this =
     (let (d1, this1) = get_data this;
          newText = ToString (text d1) @ ToString (text dat);
          (d2, this2) = get_data this1
      in (case spread (tags d2) of
            Inl e \<Rightarrow> Inl e
          | Inr cur \<Rightarrow>
              (case spread (tags dat) of
                 Inl e \<Rightarrow> Inl e
               | Inr inc \<Rightarrow>
                   set_data (Some \<lparr>text = Some newText, tags = Some (new_Set (cur @ inc))\<rparr>)
                     this2)))"

text \<open>\<^verbatim>\<open>validate(savedData)\<close>: \<^verbatim>\<open>savedData.text.trim()\<close> throws when the text is missing.\<close>

definition validate :: "ParagraphData \<Rightarrow> Paragraph \<Rightarrow> error + bool" where
  "validate savedData this =
     (case text savedData of
        None \<Rightarrow> Inl TypeError
      | Some t \<Rightarrow>
          (if trim t = [] \<and> \<not> this_preserveBlank this then Inr False else Inr True))"

text \<open>\<^verbatim>\<open>onPaste(event)\<close>.\<close>

definition onPaste :: "PasteEvent \<Rightarrow> Paragraph \<Rightarrow> error + Paragraph" where
  "onPaste event this =
     (let (d, this1) = get_data this
      in set_data (Some \<lparr>text = Some (innerHTML (detail_data event)),
                         tags = Some (or_empty_array (tags d))\<rparr>) this1)"

text \<open>
  \<^verbatim>\<open>_toggleTag(tag)\<close>: the getter runs for the test and again in the branch taken; the
  record it returns is changed in place and handed to the setter.
\<close>

definition toggleTag :: "string \<Rightarrow> Paragraph \<Rightarrow> error + Paragraph" where
  "toggleTag tag this =
     (let (d0, this0) = get_data this
      in (case tags d0 of
            None \<Rightarrow> Inl TypeError
          | Some ts0 \<Rightarrow>
              (if tag \<in> set ts0
               then (let (d, this1) = get_data this0
                     in (case tags d of
                           None \<Rightarrow> Inl TypeError
                         | Some ts \<Rightarrow>
                             set_data (Some (d\<lparr>tags := Some (splice1 (indexOf ts tag) ts)\<rparr>))
                               this1))
               else (let (d, this1) = get_data this0
                     in (case tags d of
                           None \<Rightarrow> Inl TypeError
                         | Some ts \<Rightarrow> set_data (Some (d\<lparr>tags := Some (ts @ [tag])\<rparr>)) this1)))))"

subsection \<open>Sequences of calls\<close>

text \<open>
  What the host and the user do to a block after it is constructed. \<open>UserEdit\<close> is the
  user typing into the editable element: it replaces the element's child nodes.
\<close>

datatype call =
    Set_data "ParagraphData option"
  | Get_data
  | Merge ParagraphData
  | OnPaste PasteEvent
  | ToggleTag string
  | OnKeyUp KeyboardEvent
  | Render
  | UserEdit "inline list"

fun apply_call :: "call \<Rightarrow> Paragraph \<Rightarrow> error + Paragraph" where
  "apply_call (Set_data d) this = set_data d this"
| "apply_call Get_data this = Inr (snd (get_data this))"
| "apply_call (Merge dat) this = merge dat this"
| "apply_call (OnPaste ev) this = onPaste ev this"
| "apply_call (ToggleTag tag) this = toggleTag tag this"
| "apply_call (OnKeyUp e) this = onKeyUp e this"
| "apply_call Render this = Inr (snd (render this))"
| "apply_call (UserEdit cs) this =
     Inr (this\<lparr>this_textElement := (this_textElement this)\<lparr>childNodes := cs\<rparr>\<rparr>)"

fun run :: "call list \<Rightarrow> Paragraph \<Rightarrow> error + Paragraph" where
  "run [] this = Inr this"
| "run (c # cs) this = (case apply_call c this of Inl e \<Rightarrow> Inl e | Inr this' \<Rightarrow> run cs this')"

subsection \<open>Notions used in the statements\<close>

text \<open>What \<^verbatim>\<open>get data\<close> reads from the DOM.\<close>

definition read_text :: "Paragraph \<Rightarrow> string" where
  "read_text this = innerHTML (childNodes (this_textElement this))"

definition read_tags :: "Paragraph \<Rightarrow> string list" where
  "read_tags this =
     map innerHTML (querySelectorAll_ce_tag (childNodes (this_tagsElement this)))"

text \<open>The record that \<^verbatim>\<open>get data\<close> returns after an operation.\<close>

definition read_after :: "error + Paragraph \<Rightarrow> error + ParagraphData" where
  "read_after r = (case r of Inl e \<Rightarrow> Inl e | Inr this \<Rightarrow> Inr (fst (get_data this)))"

definition and_then :: "error + 'a \<Rightarrow> ('a \<Rightarrow> error + 'b) \<Rightarrow> error + 'b" where
  "and_then r f = (case r of Inl e \<Rightarrow> Inl e | Inr x \<Rightarrow> f x)"

text \<open>
  Content without NUL and carriage return, the two characters that the parser does not
  keep as they are.
\<close>

definition clean :: "inline list \<Rightarrow> bool" where
  "clean cs = list_all (\<lambda>c. c \<noteq> NUL \<and> c \<noteq> CR) (textContent cs)"

text \<open>
  A tag identifier that the template literal of \<^verbatim>\<open>set data\<close> renders as one element
  whose content is the identifier: none of its characters is special in an attribute value
  in single quotes, in character data, or to the serialiser.
\<close>

definition plain_char :: "char \<Rightarrow> bool" where
  "plain_char c =
     (c \<noteq> CHR ''<'' \<and> c \<noteq> CHR ''>'' \<and> c \<noteq> CHR ''&'' \<and> c \<noteq> apos \<and> c \<noteq> NUL \<and> c \<noteq> CR
      \<and> c \<noteq> NBSP)"

definition plain :: "string \<Rightarrow> bool" where
  "plain t = list_all plain_char t"

text \<open>
  A block whose current content the model can write back: clean text, and tags whose
  serialised content can stand in the class attribute.
\<close>

definition in_model :: "Paragraph \<Rightarrow> bool" where
  "in_model this =
     (clean (childNodes (this_textElement this))
      \<and> list_all (list_all attr_char) (read_tags this))"

text \<open>
  A string that the template literal of \<^verbatim>\<open>set data\<close> turns into one start tag that ends
  at the \<^verbatim>\<open>>\<close> of the template: up to its first apostrophe, where the value of
  \<^verbatim>\<open>class\<close> ends, it has no \<^verbatim>\<open>&\<close>, NUL or carriage return; from there on it has no
  \<^verbatim>\<open>=\<close>, \<^verbatim>\<open>>\<close>, NUL or carriage return.
\<close>

definition rest_char :: "char \<Rightarrow> bool" where
  "rest_char c = (c \<noteq> CHR ''='' \<and> c \<noteq> CHR ''>'' \<and> c \<noteq> NUL \<and> c \<noteq> CR)"

definition fits_attribute :: "string \<Rightarrow> bool" where
  "fits_attribute t =
     (list_all attr_char (takeWhile (\<lambda>c. c \<noteq> apos) t)
      \<and> list_all rest_char (dropWhile (\<lambda>c. c \<noteq> apos) t))"

text \<open>
  A block that a write of what was read from it leaves as it is: clean text, and tags
  whose serialised content fits the start tag of the template.
\<close>

definition rewritable :: "Paragraph \<Rightarrow> bool" where
  "rewritable this =
     (clean (childNodes (this_textElement this))
      \<and> list_all fits_attribute (read_tags this))"

text \<open>
  A tag identifier that is read back as it was written: it has none of the characters
  that the serialiser escapes (\<^verbatim>\<open>< > &\<close>, U+00A0) or that the parser drops or rewrites
  (NUL, carriage return), and no \<^verbatim>\<open>=\<close> after its first apostrophe. Apostrophes are
  allowed.
\<close>

definition safe_char :: "char \<Rightarrow> bool" where
  "safe_char c =
     (c \<noteq> CHR ''<'' \<and> c \<noteq> CHR ''>'' \<and> c \<noteq> CHR ''&'' \<and> c \<noteq> NUL \<and> c \<noteq> CR
      \<and> c \<noteq> NBSP)"

definition safe_identifier :: "string \<Rightarrow> bool" where
  "safe_identifier t =
     (list_all safe_char t \<and> CHR ''='' \<notin> set (dropWhile (\<lambda>c. c \<noteq> apos) t))"

text \<open>
  Text within the part of HTML that the parser model covers: character data, the four
  character references, \<^verbatim>\<open>&\<close> where it starts no reference, \<^verbatim>\<open><br>\<close> and
  \<^verbatim>\<open></span>\<close>.
\<close>

definition modelled_text :: "string \<Rightarrow> bool" where
  "modelled_text s = (parse_inline s \<noteq> None)"

text \<open>
  Calls whose tag identifiers are plain, and whose record, for the setter, has no
  duplicate tags.
\<close>

fun tags_input_ok :: "call \<Rightarrow> bool" where
  "tags_input_ok (Set_data d) =
     (case d of
        None \<Rightarrow> True
      | Some x \<Rightarrow> distinct (or_empty_array (tags x)) \<and> list_all plain (or_empty_array (tags x)))"
| "tags_input_ok (Merge dat) = list_all plain (or_empty_array (tags dat))"
| "tags_input_ok (ToggleTag tag) = plain tag"
| "tags_input_ok c = True"

text \<open>The tags read from the DOM are plain and have no duplicates.\<close>

definition tags_invariant :: "Paragraph \<Rightarrow> bool" where
  "tags_invariant this = (distinct (read_tags this) \<and> list_all plain (read_tags this))"

text \<open>
  In the words of the specification of \<^verbatim>\<open>merge\<close>: every repeated identifier removed, the
  first occurrence kept.
\<close>

fun keep_first :: "'a list \<Rightarrow> 'a list" where
  "keep_first [] = []"
| "keep_first (x # xs) = x # keep_first (filter (\<lambda>y. y \<noteq> x) xs)"

text \<open>An example block: the editor's style class, no translation, default configuration.\<close>

definition example_api :: editor_api where
  "example_api = \<lparr>styles_block = ''ce-block'', i18n_t = (\<lambda>s. s)\<rparr>"

definition example_params :: "ParagraphData \<Rightarrow> params" where
  "example_params d =
     \<lparr>data = d, config = \<lparr>placeholder = None, preserveBlank = None\<rparr>, api = example_api,
      readOnly = False\<rparr>"

definition example_block :: Paragraph where
  "example_block =
     \<lparr>this_api = example_api, this_readOnly = False,
      this_CSS_block = ''ce-block'', this_CSS_wrapper = ''ce-paragraph'',
      this_onKeyUp_bound = True, this_placeholder = [],
      this_data = \<lparr>text = Some [], tags = Some []\<rparr>,
      this_textElement =
        \<lparr>node_id = 0, classList = [''ce-paragraph'', ''ce-block''], contentEditable = True,
         dataset_placeholder = Some [], keyup_listener = True, childNodes = []\<rparr>,
      this_containerElement =
        \<lparr>node_id = 2, classList = [], contentEditable = False, dataset_placeholder = None,
         keyup_listener = False, childNodes = [0, 1]\<rparr>,
      this_tagsElement =
        \<lparr>node_id = 1, classList = [''ce-tags''], contentEditable = False,
         dataset_placeholder = None, keyup_listener = False, childNodes = []\<rparr>,
      this_preserveBlank = False\<rparr>"

text \<open>The example block with the content \<open>cs\<close> and the tags \<open>ts\<close> in its elements.\<close>

definition example_with :: "inline list \<Rightarrow> string list \<Rightarrow> Paragraph" where
  "example_with cs ts =
     example_block
       \<lparr>this_data := \<lparr>text = Some (innerHTML cs), tags = Some ts\<rparr>,
        this_textElement := (this_textElement example_block)\<lparr>childNodes := cs\<rparr>,
        this_tagsElement := (this_tagsElement example_block)
          \<lparr>childNodes := map (\<lambda>t. Span (''ce-tag tag-'' @ t) [Text t]) ts\<rparr>\<rparr>"

subsection \<open>Notions used in the proofs\<close>

fun inline_tokens :: "inline \<Rightarrow> token list" where
  "inline_tokens (Text s) = map TChar s"
| "inline_tokens Br = [TBr]"

definition tokens_of :: "inline list \<Rightarrow> token list" where
  "tokens_of cs = concat (map inline_tokens cs)"

fun chars_of :: "inline \<Rightarrow> inline list" where
  "chars_of (Text s) = map (\<lambda>c. Text [c]) s"
| "chars_of Br = [Br]"

definition explode :: "inline list \<Rightarrow> inline list" where
  "explode cs = concat (map chars_of cs)"

definition prepend :: "'a list \<Rightarrow> 'a list option \<Rightarrow> 'a list option" where
  "prepend xs z = (case z of None \<Rightarrow> None | Some ys \<Rightarrow> Some (xs @ ys))"

definition tag_class :: "string \<Rightarrow> string" where
  "tag_class t = ''ce-tag tag-'' @ t"

text \<open>The value of \<^verbatim>\<open>class\<close> that the parser reads for a tag with the content \<open>cs\<close>.\<close>

definition tag_value :: "inline list \<Rightarrow> string" where
  "tag_value cs = tag_class (takeWhile (\<lambda>c. c \<noteq> apos) (innerHTML cs))"

definition tag_span :: "inline list \<Rightarrow> node" where
  "tag_span cs = Span (tag_value cs) (merge_text cs)"

definition tag_tokens :: "inline list \<Rightarrow> token list" where
  "tag_tokens cs = TOpen (tag_value cs) # tokens_of cs @ [TClose]"

text \<open>A string that can be written as a tag and is read back as it is.\<close>

definition writable :: "string \<Rightarrow> bool" where
  "writable t = (fits_attribute t \<and> t \<in> range innerHTML)"

section \<open>The parser on what the serialiser and the template literal write\<close>

subsection \<open>Sequences of tokens\<close>

lemma prepend_Some [simp]: "prepend xs (Some ys) = Some (xs @ ys)"
  by (simp add: prepend_def)

lemma prepend_Nil [simp]: "prepend [] z = z"
  by (simp add: prepend_def split: option.split)

lemma prepend_prepend [simp]: "prepend xs (prepend ys z) = prepend (xs @ ys) z"
  by (simp add: prepend_def split: option.split)

lemma map_option_Cons: "map_option (Cons x) z = prepend [x] z"
  by (simp add: prepend_def split: option.split)

subsection \<open>The tokenizer on serialised content\<close>

lemma after_prefix_append [simp]: "after_prefix p (p @ r) = Some r"
  by (simp add: after_prefix_def)

lemma after_prefix_Cons_neq [simp]: "a \<noteq> b \<Longrightarrow> after_prefix (a # p) (b # r) = None"
  by (simp add: after_prefix_def)

lemma after_prefix_Cons_eq [simp]: "after_prefix (a # p) (a # r) = after_prefix p r"
  by (simp add: after_prefix_def)

lemma after_prefix_Nil [simp]: "after_prefix [] r = Some r"
  by (simp add: after_prefix_def)

declare tokenize.simps(2) [simp del]

lemma tokenize_char:
  "c \<noteq> CHR ''<'' \<Longrightarrow> c \<noteq> CHR ''&'' \<Longrightarrow> c \<noteq> NUL \<Longrightarrow> c \<noteq> CR \<Longrightarrow>
   tokenize (c # s) = prepend [TChar c] (tokenize s)"
  by (simp add: tokenize.simps(2) map_option_Cons)

lemma tokenize_amp: "tokenize (''&amp;'' @ s) = prepend [TChar (CHR ''&'')] (tokenize s)"
  by (simp add: tokenize.simps(2) map_option_Cons)

lemma tokenize_lt: "tokenize (''&lt;'' @ s) = prepend [TChar (CHR ''<'')] (tokenize s)"
  by (simp add: tokenize.simps(2) map_option_Cons)

lemma tokenize_gt: "tokenize (''&gt;'' @ s) = prepend [TChar (CHR ''>'')] (tokenize s)"
  by (simp add: tokenize.simps(2) map_option_Cons)

lemma tokenize_nbsp: "tokenize (''&nbsp;'' @ s) = prepend [TChar NBSP] (tokenize s)"
  by (simp add: tokenize.simps(2) map_option_Cons)

lemma tokenize_br: "tokenize (''<br>'' @ s) = prepend [TBr] (tokenize s)"
  by (simp add: tokenize.simps(2) map_option_Cons)

lemma tokenize_close: "tokenize (''</span>'' @ s) = prepend [TClose] (tokenize s)"
  by (simp add: tokenize.simps(2) map_option_Cons)

lemma tokenize_escape_char:
  "c \<noteq> NUL \<Longrightarrow> c \<noteq> CR \<Longrightarrow> tokenize (escape_char c @ s) = prepend [TChar c] (tokenize s)"
  using tokenize_amp tokenize_lt tokenize_gt tokenize_nbsp
  by (simp add: escape_char_def tokenize_char)

lemma tokenize_escape:
  "list_all (\<lambda>c. c \<noteq> NUL \<and> c \<noteq> CR) s \<Longrightarrow>
   tokenize (escape s @ r) = prepend (map TChar s) (tokenize r)"
proof (induction s)
  case Nil
  then show ?case by (simp add: escape_def)
next
  case (Cons c s)
  then show ?case
    by (simp add: escape_def tokenize_escape_char)
qed

lemma clean_Nil [simp]: "clean []"
  by (simp add: clean_def textContent_def)

lemma clean_Cons_Text [simp]:
  "clean (Text s # cs) = (list_all (\<lambda>c. c \<noteq> NUL \<and> c \<noteq> CR) s \<and> clean cs)"
  by (simp add: clean_def textContent_def)

lemma clean_Cons_Br [simp]: "clean (Br # cs) = clean cs"
  by (simp add: clean_def textContent_def)

lemma innerHTML_Cons: "innerHTML (x # cs) = serialize_inline x @ innerHTML cs"
  by (simp add: innerHTML_def)

lemma tokens_of_Cons: "tokens_of (x # cs) = inline_tokens x @ tokens_of cs"
  by (simp add: tokens_of_def)

lemma tokenize_innerHTML:
  "clean cs \<Longrightarrow> tokenize (innerHTML cs @ r) = prepend (tokens_of cs) (tokenize r)"
proof (induction cs)
  case Nil
  then show ?case by (simp add: innerHTML_def tokens_of_def)
next
  case (Cons x cs)
  show ?case
  proof (cases x)
    case (Text s)
    with Cons have "tokenize (escape s @ (innerHTML cs @ r))
        = prepend (map TChar s) (prepend (tokens_of cs) (tokenize r))"
      by (simp add: tokenize_escape)
    with Text show ?thesis
      by (simp add: innerHTML_Cons tokens_of_Cons)
  next
    case Br
    with Cons have "tokenize (''<br>'' @ (innerHTML cs @ r))
        = prepend [TBr] (prepend (tokens_of cs) (tokenize r))"
      by (simp only: tokenize_br clean_Cons_Br)
    with Br show ?thesis
      by (simp add: innerHTML_Cons tokens_of_Cons)
  qed
qed

lemma takeWhile_not_apos:
  "apos \<notin> set v \<Longrightarrow> takeWhile (\<lambda>x. x \<noteq> apos) (v @ apos # r) = v"
  by (induction v) auto

lemma dropWhile_not_apos:
  "apos \<notin> set v \<Longrightarrow> dropWhile (\<lambda>x. x \<noteq> apos) (v @ apos # r) = apos # r"
  by (induction v) auto

lemma attr_char_not_apos: "list_all attr_char v \<Longrightarrow> apos \<notin> set v"
  by (auto simp: list_all_iff attr_char_def)

lemma takeWhile_not_gt:
  "CHR ''>'' \<notin> set j \<Longrightarrow> takeWhile (\<lambda>x. x \<noteq> CHR ''>'') (j @ CHR ''>'' # r) = j"
  by (induction j) auto

lemma dropWhile_not_gt:
  "CHR ''>'' \<notin> set j \<Longrightarrow> dropWhile (\<lambda>x. x \<noteq> CHR ''>'') (j @ CHR ''>'' # r) = CHR ''>'' # r"
  by (induction j) auto

lemma tokenize_open:
  assumes "list_all attr_char v" and "CHR ''>'' \<notin> set j" and "CHR ''='' \<notin> set j"
  shows "tokenize (''<span class='' @ [apos] @ v @ [apos] @ j @ ''>'' @ r)
         = prepend [TOpen v] (tokenize r)"
proof -
  define P where "P = ''span class='' @ [apos]"
  define Y where "Y = v @ apos # (j @ CHR ''>'' # r)"
  have a: "apos \<notin> set v" using assms(1) by (rule attr_char_not_apos)
  have h1: "after_prefix ''br>'' (P @ Y) = None" by (simp add: P_def)
  have h2: "after_prefix ''/span>'' (P @ Y) = None" by (simp add: P_def)
  have h3: "after_prefix P (P @ Y) = Some Y" by (rule after_prefix_append)
  have h4: "takeWhile (\<lambda>x. x \<noteq> apos) Y = v"
    unfolding Y_def using a by (rule takeWhile_not_apos)
  have h5: "dropWhile (\<lambda>x. x \<noteq> apos) Y = apos # (j @ CHR ''>'' # r)"
    unfolding Y_def using a by (rule dropWhile_not_apos)
  have h6: "takeWhile (\<lambda>x. x \<noteq> CHR ''>'') (j @ CHR ''>'' # r) = j"
    using assms(2) by (rule takeWhile_not_gt)
  have h7: "dropWhile (\<lambda>x. x \<noteq> CHR ''>'') (j @ CHR ''>'' # r) = CHR ''>'' # r"
    using assms(2) by (rule dropWhile_not_gt)
  have "tokenize (CHR ''<'' # P @ Y) = prepend [TOpen v] (tokenize r)"
    unfolding tokenize.simps(2)[of "CHR ''<''" "P @ Y"] P_def[symmetric]
    using assms(1,3) by (simp add: h1 h2 h3 h4 h5 h6 h7 map_option_Cons)
  then show ?thesis by (simp add: P_def Y_def)
qed

lemma attr_char_tag_class: "list_all attr_char t \<Longrightarrow> list_all attr_char (tag_class t)"
  by (simp add: tag_class_def attr_char_def apos_def NUL_def CR_def)

text \<open>
  The template literal around a string \<open>t\<close>: the value of \<^verbatim>\<open>class\<close> ends at the first
  apostrophe of \<open>t\<close>, and what follows it up to the apostrophe of the template is read as
  attribute names.
\<close>

lemma no_apos_takeWhile: "apos \<notin> set t \<Longrightarrow> takeWhile (\<lambda>c. c \<noteq> apos) t = t"
  by (induction t) auto

lemma no_apos_dropWhile: "apos \<notin> set t \<Longrightarrow> dropWhile (\<lambda>c. c \<noteq> apos) t = []"
  by (induction t) auto

lemma dropWhile_Nil_no_apos: "dropWhile (\<lambda>c. c \<noteq> apos) t = [] \<Longrightarrow> apos \<notin> set t"
  by (induction t) (auto split: if_splits)

lemma split_at_apos:
  obtains j where
    "t @ [apos] = takeWhile (\<lambda>c. c \<noteq> apos) t @ apos # j"
    and "set j \<subseteq> insert apos (set (dropWhile (\<lambda>c. c \<noteq> apos) t))"
proof (cases "dropWhile (\<lambda>c. c \<noteq> apos) t")
  case Nil
  then have "apos \<notin> set t"
    by (rule dropWhile_Nil_no_apos)
  then have "t @ [apos] = takeWhile (\<lambda>c. c \<noteq> apos) t @ apos # []"
    by (simp add: no_apos_takeWhile)
  moreover have "set [] \<subseteq> insert apos (set (dropWhile (\<lambda>c. c \<noteq> apos) t))"
    by simp
  ultimately show ?thesis by (rule that)
next
  case (Cons q t2)
  then have q: "q = apos"
    using hd_dropWhile[of "\<lambda>c. c \<noteq> apos" t] by simp
  have "t = takeWhile (\<lambda>c. c \<noteq> apos) t @ apos # t2"
    using takeWhile_dropWhile_id[of "\<lambda>c. c \<noteq> apos" t] Cons q by simp
  then have "t @ [apos] = (takeWhile (\<lambda>c. c \<noteq> apos) t @ apos # t2) @ [apos]"
    by simp
  then have "t @ [apos] = takeWhile (\<lambda>c. c \<noteq> apos) t @ apos # (t2 @ [apos])"
    by simp
  moreover have "set (t2 @ [apos]) \<subseteq> insert apos (set (dropWhile (\<lambda>c. c \<noteq> apos) t))"
    using Cons by auto
  ultimately show ?thesis by (rule that)
qed

lemma tokenize_tag_markup:
  assumes "fits_attribute (innerHTML cs)" and "clean cs"
  shows "tokenize (tag_markup (innerHTML cs) @ r) = prepend (tag_tokens cs) (tokenize r)"
proof -
  define t where "t = innerHTML cs"
  define v where "v = tag_class (takeWhile (\<lambda>c. c \<noteq> apos) t)"
  obtain j where j: "t @ [apos] = takeWhile (\<lambda>c. c \<noteq> apos) t @ apos # j"
    and sub: "set j \<subseteq> insert apos (set (dropWhile (\<lambda>c. c \<noteq> apos) t))"
    by (rule split_at_apos)
  have a: "list_all attr_char v"
    unfolding v_def using assms(1)
    by (intro attr_char_tag_class) (simp add: fits_attribute_def t_def)
  have "list_all rest_char (dropWhile (\<lambda>c. c \<noteq> apos) t)"
    using assms(1) by (simp add: fits_attribute_def t_def)
  with sub have g: "CHR ''>'' \<notin> set j" and e: "CHR ''='' \<notin> set j"
    by (auto simp: list_all_iff rest_char_def apos_def)
  have "tag_class t @ [apos] = v @ apos # j"
    using j by (simp add: tag_class_def v_def)
  then have "tag_class t @ [apos] @ ''>'' @ (t @ (''</span>'' @ r))
        = v @ [apos] @ j @ ''>'' @ (t @ (''</span>'' @ r))"
    by simp
  then have eq: "tag_markup t @ r
        = ''<span class='' @ [apos] @ v @ [apos] @ j @ ''>'' @ (t @ (''</span>'' @ r))"
    by (simp add: tag_markup_def tag_class_def)
  have "tokenize (tag_markup t @ r)
        = prepend [TOpen v] (tokenize (t @ (''</span>'' @ r)))"
    unfolding eq using a g e by (rule tokenize_open)
  also have "\<dots> = prepend [TOpen v] (prepend (tokens_of cs) (prepend [TClose] (tokenize r)))"
    unfolding t_def by (simp only: tokenize_innerHTML[OF assms(2)] tokenize_close)
  finally show ?thesis
    by (simp add: tag_tokens_def tag_value_def v_def t_def)
qed

lemma escape_char_control: "c = NUL \<or> c = CR \<Longrightarrow> escape_char c = [c]"
  by (auto simp: escape_char_def NUL_def CR_def NBSP_def)

lemma escape_chars:
  assumes "c \<in> set s" and "c = NUL \<or> c = CR"
  shows "c \<in> set (escape s)"
proof -
  have "c \<in> set (escape_char c)"
    using escape_char_control[OF assms(2)] by simp
  with assms(1) show ?thesis
    unfolding escape_def by (simp only: set_concat set_map) blast
qed

lemma clean_if_chars:
  "NUL \<notin> set (innerHTML cs) \<Longrightarrow> CR \<notin> set (innerHTML cs) \<Longrightarrow> clean cs"
proof (induction cs)
  case Nil
  then show ?case by simp
next
  case (Cons x cs)
  show ?case
  proof (cases x)
    case (Text s)
    have "list_all (\<lambda>c. c \<noteq> NUL \<and> c \<noteq> CR) s"
      using Cons.prems Text escape_chars[of _ s]
      by (auto simp: innerHTML_Cons list_all_iff)
    with Cons Text show ?thesis by (simp add: innerHTML_Cons)
  next
    case Br
    with Cons show ?thesis by (simp add: innerHTML_Cons)
  qed
qed

lemma fits_attribute_chars:
  assumes "fits_attribute t"
  shows "NUL \<notin> set t \<and> CR \<notin> set t"
proof -
  define a where "a = takeWhile (\<lambda>c. c \<noteq> apos) t"
  define b where "b = dropWhile (\<lambda>c. c \<noteq> apos) t"
  have t: "t = a @ b"
    by (simp add: a_def b_def)
  have "list_all attr_char a" and "list_all rest_char b"
    using assms by (simp_all add: fits_attribute_def a_def b_def)
  then have "NUL \<notin> set a \<and> CR \<notin> set a" and "NUL \<notin> set b \<and> CR \<notin> set b"
    by (auto simp: list_all_iff attr_char_def rest_char_def)
  then show ?thesis
    unfolding t by simp
qed

lemma clean_if_fits: "fits_attribute (innerHTML cs) \<Longrightarrow> clean cs"
  using fits_attribute_chars[of "innerHTML cs"] by (simp add: clean_if_chars)

lemma tokenize_tags:
  "\<forall>cs \<in> set css. fits_attribute (innerHTML cs) \<Longrightarrow>
   tokenize (concat (map (\<lambda>cs. tag_markup (innerHTML cs)) css) @ r)
   = prepend (concat (map tag_tokens css)) (tokenize r)"
proof (induction css)
  case Nil
  then show ?case by simp
next
  case (Cons cs css)
  define X where "X = concat (map (\<lambda>cs. tag_markup (innerHTML cs)) css) @ r"
  have a: "fits_attribute (innerHTML cs)" using Cons.prems by simp
  have IH: "tokenize X = prepend (concat (map tag_tokens css)) (tokenize r)"
    unfolding X_def using Cons by simp
  have "tokenize (tag_markup (innerHTML cs) @ X) = prepend (tag_tokens cs) (tokenize X)"
    by (rule tokenize_tag_markup[OF a clean_if_fits[OF a]])
  then show ?case unfolding IH by (simp add: X_def)
qed

subsection \<open>Tree construction on these tokens\<close>

lemma build_inline_chars:
  "build_inline (map TChar s @ ts) = prepend (map (\<lambda>c. Text [c]) s) (build_inline ts)"
  by (induction s) (simp_all add: map_option_Cons)

lemma explode_Cons: "explode (x # cs) = chars_of x @ explode cs"
  by (simp add: explode_def)

lemma build_inline_tokens_of:
  "build_inline (tokens_of cs @ ts) = prepend (explode cs) (build_inline ts)"
proof (induction cs)
  case Nil
  then show ?case by (simp add: tokens_of_def explode_def)
next
  case (Cons x cs)
  then show ?case
    by (cases x) (simp_all add: tokens_of_Cons explode_Cons build_inline_chars map_option_Cons)
qed

lemma build_span_chars:
  "build (Some (v, acc)) (map TChar s @ ts)
   = build (Some (v, rev (map (\<lambda>c. Text [c]) s) @ acc)) ts"
  by (induction s arbitrary: acc) simp_all

lemma build_span_tokens_of:
  "build (Some (v, acc)) (tokens_of cs @ ts) = build (Some (v, rev (explode cs) @ acc)) ts"
proof (induction cs arbitrary: acc)
  case Nil
  then show ?case by (simp add: tokens_of_def explode_def)
next
  case (Cons x cs)
  show ?case
  proof (cases x)
    case (Text s)
    have "build (Some (v, acc)) (map TChar s @ (tokens_of cs @ ts))
          = build (Some (v, rev (explode cs) @ rev (map (\<lambda>c. Text [c]) s) @ acc)) ts"
      by (simp only: build_span_chars Cons.IH)
    with Text show ?thesis by (simp add: tokens_of_Cons explode_Cons)
  next
    case Br
    with Cons.IH[of "Br # acc"] show ?thesis by (simp add: tokens_of_Cons explode_Cons)
  qed
qed

lemma build_tag_tokens:
  "build None (tag_tokens cs @ ts) = prepend [Span (tag_value cs) (explode cs)] (build None ts)"
  by (simp add: tag_tokens_def build_span_tokens_of map_option_Cons)

lemma build_tags:
  "build None (concat (map tag_tokens css) @ ts)
   = prepend (map (\<lambda>cs. Span (tag_value cs) (explode cs)) css) (build None ts)"
proof (induction css)
  case Nil
  then show ?case by simp
next
  case (Cons cs css)
  have "build None (tag_tokens cs @ (concat (map tag_tokens css) @ ts))
        = prepend [Span (tag_value cs) (explode cs)]
            (build None (concat (map tag_tokens css) @ ts))"
    by (rule build_tag_tokens)
  then show ?case unfolding Cons.IH by simp
qed

subsection \<open>Merging Text nodes\<close>

lemma merge_text_chars:
  "merge_text (map (\<lambda>c. Text [c]) s @ ds) = merge_text (Text s # ds)"
proof (induction s)
  case Nil
  then show ?case by simp
next
  case (Cons c s)
  then show ?case
    by (cases "merge_text ds" rule: merge_text.cases) (auto split: list.splits inline.splits)
qed

lemma merge_text_cong:
  "merge_text ds = merge_text ds' \<Longrightarrow> merge_text (x # ds) = merge_text (x # ds')"
  by (cases x) (auto split: list.splits inline.splits)

lemma merge_text_explode_append:
  "merge_text (explode cs @ ds) = merge_text (cs @ ds)"
proof (induction cs)
  case Nil
  then show ?case by (simp add: explode_def)
next
  case (Cons x cs)
  show ?case
  proof (cases x)
    case (Text s)
    have "merge_text (map (\<lambda>c. Text [c]) s @ (explode cs @ ds))
          = merge_text (Text s # (explode cs @ ds))"
      by (rule merge_text_chars)
    also have "\<dots> = merge_text (Text s # (cs @ ds))"
      using Cons.IH by (rule merge_text_cong)
    finally show ?thesis using Text by (simp add: explode_Cons)
  next
    case Br
    with Cons.IH show ?thesis by (simp add: explode_Cons)
  qed
qed

lemma merge_text_explode: "merge_text (explode cs) = merge_text cs"
  using merge_text_explode_append[of cs "[]"] by simp

lemma escape_append: "escape (s @ t) = escape s @ escape t"
  by (simp add: escape_def)

lemma innerHTML_merge_text: "innerHTML (merge_text cs) = innerHTML cs"
proof (induction cs)
  case Nil
  show ?case by simp
next
  case (Cons x cs)
  show ?case
  proof (cases x)
    case Br
    with Cons show ?thesis by (simp add: innerHTML_Cons)
  next
    case (Text s)
    show ?thesis
    proof (cases "s = []")
      case True
      with Cons Text show ?thesis by (simp add: innerHTML_Cons escape_def)
    next
      case False
      show ?thesis
      proof (cases "merge_text cs")
        case Nil
        with Cons Text False show ?thesis by (simp add: innerHTML_Cons)
      next
        case (Cons y ys)
        have "innerHTML cs = serialize_inline y @ innerHTML ys"
          using Cons.IH Cons by (simp add: innerHTML_Cons)
        with Cons Text False show ?thesis
          by (cases y) (simp_all add: innerHTML_Cons escape_append)
      qed
    qed
  qed
qed

lemma textContent_Cons: "textContent (x # cs) = text_data x @ textContent cs"
  by (simp add: textContent_def)

lemma textContent_merge_text: "textContent (merge_text cs) = textContent cs"
proof (induction cs)
  case Nil
  show ?case by simp
next
  case (Cons x cs)
  show ?case
  proof (cases x)
    case Br
    with Cons show ?thesis by (simp add: textContent_Cons)
  next
    case (Text s)
    show ?thesis
    proof (cases "s = []")
      case True
      with Cons Text show ?thesis by (simp add: textContent_Cons)
    next
      case False
      show ?thesis
      proof (cases "merge_text cs")
        case Nil
        with Cons Text False show ?thesis by (simp add: textContent_Cons)
      next
        case (Cons y ys)
        have "textContent cs = text_data y @ textContent ys"
          using Cons.IH Cons by (simp add: textContent_Cons)
        with Cons Text False show ?thesis
          by (cases y) (simp_all add: textContent_Cons)
      qed
    qed
  qed
qed

lemma clean_merge_text: "clean (merge_text cs) = clean cs"
  by (simp add: clean_def textContent_merge_text)

lemma merge_nodes_spans:
  "merge_nodes (map (\<lambda>cs. Span (tag_value cs) (explode cs)) css) = map tag_span css"
  by (induction css) (simp_all add: tag_span_def merge_text_explode)

subsection \<open>Reading back what was written\<close>

lemma parse_inline_innerHTML:
  assumes "clean cs"
  shows "parse_inline (innerHTML cs) = Some (merge_text cs)"
proof -
  have "tokenize (innerHTML cs @ []) = Some (tokens_of cs)"
    unfolding tokenize_innerHTML[OF assms] by simp
  moreover have "build_inline (tokens_of cs @ []) = Some (explode cs)"
    unfolding build_inline_tokens_of by simp
  ultimately show ?thesis
    by (simp add: parse_inline_def merge_text_explode)
qed

lemma parse_inline_empty: "parse_inline [] = Some []"
  by (simp add: parse_inline_def)

lemma parse_nodes_tags:
  assumes "\<forall>cs \<in> set css. fits_attribute (innerHTML cs)"
  shows "parse_nodes (concat (map tag_markup (map innerHTML css))) = Some (map tag_span css)"
proof -
  have "tokenize (concat (map (\<lambda>cs. tag_markup (innerHTML cs)) css) @ [])
        = Some (concat (map tag_tokens css))"
    unfolding tokenize_tags[OF assms] by simp
  then have "tokenize (concat (map tag_markup (map innerHTML css)))
        = Some (concat (map tag_tokens css))"
    by (simp add: comp_def)
  moreover have "build None (concat (map tag_tokens css) @ [])
        = Some (map (\<lambda>cs. Span (tag_value cs) (explode cs)) css)"
    unfolding build_tags by simp
  ultimately show ?thesis
    using merge_nodes_spans[of css] by (simp add: parse_nodes_def)
qed

lemma ce_tag_class: "''ce-tag'' \<in> set (class_tokens (tag_class t))"
  by (simp add: class_tokens_def tag_class_def ascii_whitespace_def)

lemma querySelectorAll_tag_spans:
  "querySelectorAll_ce_tag (map tag_span css) = map merge_text css"
  by (induction css) (simp_all add: tag_span_def tag_value_def ce_tag_class)

lemma read_tag_spans:
  "map innerHTML (querySelectorAll_ce_tag (map tag_span css)) = map innerHTML css"
  by (simp add: querySelectorAll_tag_spans innerHTML_merge_text)

section \<open>The getter and the setter\<close>

lemma or_empty_string_Some [simp]: "or_empty_string (Some s) = s"
  by (simp add: or_empty_string_def)

lemma or_empty_string_None [simp]: "or_empty_string None = []"
  by (simp add: or_empty_string_def)

lemma or_empty_array_Some [simp]: "or_empty_array (Some xs) = xs"
  by (simp add: or_empty_array_def)

lemma or_empty_array_None [simp]: "or_empty_array None = []"
  by (simp add: or_empty_array_def)

lemma get_data_eq:
  "get_data this =
     (\<lparr>text = Some (read_text this), tags = Some (read_tags this)\<rparr>,
      this\<lparr>this_data := \<lparr>text = Some (read_text this), tags = Some (read_tags this)\<rparr>\<rparr>)"
  by (simp add: get_data_def read_text_def read_tags_def Let_def)

lemma read_text_cache [simp]: "read_text (this\<lparr>this_data := d\<rparr>) = read_text this"
  by (simp add: read_text_def)

lemma read_tags_cache [simp]: "read_tags (this\<lparr>this_data := d\<rparr>) = read_tags this"
  by (simp add: read_tags_def)

lemma in_model_cache [simp]: "in_model (this\<lparr>this_data := d\<rparr>) = in_model this"
  by (simp add: in_model_def)

lemma set_data_cache [simp]: "set_data d (this\<lparr>this_data := x\<rparr>) = set_data d this"
  by (simp add: set_data_def Let_def split: option.split)

lemma rewritable_cache [simp]: "rewritable (this\<lparr>this_data := d\<rparr>) = rewritable this"
  by (simp add: rewritable_def)

lemma set_data_content:
  assumes "clean cs" and "\<forall>c \<in> set css. fits_attribute (innerHTML c)"
  shows "set_data (Some \<lparr>text = Some (innerHTML cs), tags = Some (map innerHTML css)\<rparr>) this
         = Inr (this\<lparr>this_data := \<lparr>text = Some (innerHTML cs), tags = Some (map innerHTML css)\<rparr>,
                     this_textElement := (this_textElement this)\<lparr>childNodes := merge_text cs\<rparr>,
                     this_tagsElement := (this_tagsElement this)\<lparr>childNodes := map tag_span css\<rparr>\<rparr>)"
  using parse_inline_innerHTML[OF assms(1)] parse_nodes_tags[OF assms(2)]
  by (simp add: set_data_def)

lemma plain_attr: "plain t \<Longrightarrow> list_all attr_char t"
  by (simp add: plain_def list_all_iff plain_char_def attr_char_def)

lemma attr_fits: "list_all attr_char t \<Longrightarrow> fits_attribute t"
proof -
  assume a: "list_all attr_char t"
  then have n: "apos \<notin> set t" by (rule attr_char_not_apos)
  show ?thesis
    unfolding fits_attribute_def no_apos_takeWhile[OF n] no_apos_dropWhile[OF n]
    using a by simp
qed

lemma safe_is_markup: "safe_identifier t \<Longrightarrow> innerHTML [Text t] = t"
proof -
  have "list_all safe_char t \<Longrightarrow> escape t = t"
    by (induction t) (simp_all add: escape_def escape_char_def safe_char_def)
  then show "safe_identifier t \<Longrightarrow> innerHTML [Text t] = t"
    by (simp add: safe_identifier_def innerHTML_def)
qed

lemma safe_fits: "safe_identifier t \<Longrightarrow> fits_attribute t"
proof -
  assume s: "safe_identifier t"
  have sub: "set (takeWhile (\<lambda>c. c \<noteq> apos) t) \<subseteq> set t"
    "set (dropWhile (\<lambda>c. c \<noteq> apos) t) \<subseteq> set t"
    by (auto dest: set_takeWhileD set_dropWhileD)
  have "\<forall>c \<in> set (takeWhile (\<lambda>c. c \<noteq> apos) t). c \<noteq> apos"
    by (auto dest: set_takeWhileD)
  with s sub show ?thesis
    by (auto simp: fits_attribute_def safe_identifier_def list_all_iff safe_char_def
          attr_char_def rest_char_def)
qed

lemma safe_writable: "safe_identifier t \<Longrightarrow> writable t"
  unfolding writable_def using safe_is_markup[of t] safe_fits[of t] by (metis rangeI)

lemma plain_safe: "plain t \<Longrightarrow> safe_identifier t"
proof -
  assume p: "plain t"
  then have n: "apos \<notin> set t"
    by (auto simp: plain_def list_all_iff plain_char_def)
  show ?thesis
    unfolding safe_identifier_def no_apos_dropWhile[OF n]
    using p by (simp add: plain_def list_all_iff plain_char_def safe_char_def)
qed

lemma plain_writable: "plain t \<Longrightarrow> writable t"
  by (intro safe_writable plain_safe)

lemma read_tags_range: "t \<in> set (read_tags this) \<Longrightarrow> t \<in> range innerHTML"
  by (auto simp: read_tags_def)

lemma rewritable_writable: "rewritable this \<Longrightarrow> t \<in> set (read_tags this) \<Longrightarrow> writable t"
  by (auto simp: rewritable_def writable_def list_all_iff read_tags_range)

lemma in_model_rewritable: "in_model this \<Longrightarrow> rewritable this"
  by (auto simp: in_model_def rewritable_def list_all_iff attr_fits)

lemma in_model_writable: "in_model this \<Longrightarrow> t \<in> set (read_tags this) \<Longrightarrow> writable t"
  by (intro rewritable_writable in_model_rewritable)

lemma writable_content:
  assumes "\<forall>t \<in> set ts. writable t"
  obtains css where "ts = map innerHTML css" and "\<forall>c \<in> set css. fits_attribute (innerHTML c)"
proof -
  from assms have "\<forall>t \<in> set ts. \<exists>c. t = innerHTML c"
    by (auto simp: writable_def)
  then obtain css where ts: "ts = map innerHTML css"
    by (auto simp: ex_map_conv[symmetric])
  with assms have "\<forall>c \<in> set css. fits_attribute (innerHTML c)"
    by (auto simp: writable_def)
  with ts show ?thesis by (rule that)
qed

text \<open>Writing serialised content and writable tags succeeds, and the getter reads them back.\<close>

lemma set_data_written:
  assumes "clean cs" and "\<forall>t \<in> set ts. writable t"
  obtains this' where
    "set_data (Some \<lparr>text = Some (innerHTML cs), tags = Some ts\<rparr>) this = Inr this'"
    and "read_text this' = innerHTML cs" and "read_tags this' = ts"
    and "clean (childNodes (this_textElement this'))"
    and "this_data this' = \<lparr>text = Some (innerHTML cs), tags = Some ts\<rparr>"
proof -
  from assms(2) obtain css where ts: "ts = map innerHTML css"
    and a: "\<forall>c \<in> set css. fits_attribute (innerHTML c)"
    by (rule writable_content)
  define this' where "this' = this\<lparr>this_data := \<lparr>text = Some (innerHTML cs), tags = Some ts\<rparr>,
                     this_textElement := (this_textElement this)\<lparr>childNodes := merge_text cs\<rparr>,
                     this_tagsElement := (this_tagsElement this)\<lparr>childNodes := map tag_span css\<rparr>\<rparr>"
  have 1: "set_data (Some \<lparr>text = Some (innerHTML cs), tags = Some ts\<rparr>) this = Inr this'"
    unfolding this'_def ts by (rule set_data_content[OF assms(1) a])
  have 2: "read_text this' = innerHTML cs"
    by (simp add: this'_def read_text_def innerHTML_merge_text)
  have 3: "read_tags this' = ts"
    by (simp add: this'_def read_tags_def read_tag_spans ts)
  have 4: "clean (childNodes (this_textElement this'))"
    using assms(1) by (simp add: this'_def clean_merge_text)
  have 5: "this_data this' = \<lparr>text = Some (innerHTML cs), tags = Some ts\<rparr>"
    by (simp add: this'_def)
  from 1 2 3 4 5 show ?thesis by (rule that)
qed

text \<open>What no call changes.\<close>

lemma set_data_frame:
  assumes "set_data d this = Inr this'"
  shows "this_containerElement this' = this_containerElement this"
    and "this_preserveBlank this' = this_preserveBlank this"
    and "this_placeholder this' = this_placeholder this"
    and "node_id (this_textElement this') = node_id (this_textElement this)"
    and "node_id (this_tagsElement this') = node_id (this_tagsElement this)"
  using assms by (auto simp: set_data_def Let_def split: option.splits)

lemma set_data_no_TypeError: "set_data d this \<noteq> Inl TypeError"
  by (auto simp: set_data_def Let_def split: option.splits)

section \<open>JavaScript built-ins\<close>

lemma Set_add_all_keep_first:
  "Set_add_all acc xs = acc @ keep_first (filter (\<lambda>y. y \<notin> set acc) xs)"
proof (induction xs arbitrary: acc)
  case Nil
  show ?case by simp
next
  case (Cons x xs)
  show ?case
  proof (cases "x \<in> set acc")
    case True
    then show ?thesis by (simp add: Cons.IH)
  next
    case False
    have "filter (\<lambda>y. y \<noteq> x) (filter (\<lambda>y. y \<notin> set acc) xs)
          = filter (\<lambda>y. y \<notin> set (acc @ [x])) xs"
      by (auto intro: filter_cong)
    with False show ?thesis by (simp add: Cons.IH)
  qed
qed

lemma new_Set_keep_first: "new_Set xs = keep_first xs"
  by (simp add: new_Set_def Set_add_all_keep_first)

lemma set_keep_first: "set (keep_first xs) = set xs"
  by (induction xs rule: keep_first.induct) auto

lemma distinct_keep_first: "distinct (keep_first xs)"
  by (induction xs rule: keep_first.induct) (auto simp: set_keep_first)

lemma keep_first_distinct: "distinct xs \<Longrightarrow> keep_first xs = xs"
proof (induction xs)
  case Nil
  show ?case by simp
next
  case (Cons a xs)
  then have "filter (\<lambda>y. y \<noteq> a) xs = xs"
    by (auto simp: filter_id_conv)
  with Cons show ?case by simp
qed

lemma indexOf_bounds: "x \<in> set xs \<Longrightarrow> 0 \<le> indexOf xs x \<and> indexOf xs x < int (length xs)"
  by (induction xs) (auto simp: Let_def)

lemma indexOf_remove1:
  "x \<in> set xs \<Longrightarrow>
   take (nat (indexOf xs x)) xs @ drop (nat (indexOf xs x) + 1) xs = remove1 x xs"
proof (induction xs)
  case Nil
  then show ?case by simp
next
  case (Cons y ys)
  show ?case
  proof (cases "y = x")
    case True
    then show ?thesis by simp
  next
    case False
    with Cons.prems have m: "x \<in> set ys" by simp
    have "nat (indexOf ys x + 1) = Suc (nat (indexOf ys x))"
      using indexOf_bounds[OF m] by linarith
    with False Cons.IH[OF m] indexOf_bounds[OF m] show ?thesis
      by (simp add: Let_def)
  qed
qed

lemma splice1_indexOf: "x \<in> set xs \<Longrightarrow> splice1 (indexOf xs x) xs = remove1 x xs"
  using indexOf_bounds[of x xs] indexOf_remove1[of x xs]
  by (simp add: splice1_def Let_def min_def)

section \<open>The methods in terms of the setter\<close>

lemma merge_eq:
  "merge dat this =
     (case tags dat of
        None \<Rightarrow> Inl TypeError
      | Some inc \<Rightarrow>
          set_data (Some \<lparr>text = Some (read_text this @ ToString (text dat)),
                          tags = Some (keep_first (read_tags this @ inc))\<rparr>) this)"
  by (simp add: merge_def get_data_eq spread_def ToString_def new_Set_keep_first
        split: option.split)

lemma onPaste_eq:
  "onPaste ev this =
     set_data (Some \<lparr>text = Some (innerHTML (detail_data ev)), tags = Some (read_tags this)\<rparr>)
       this"
  by (simp add: onPaste_def get_data_eq)

lemma toggleTag_eq:
  "toggleTag tag this =
     set_data (Some \<lparr>text = Some (read_text this),
                     tags = Some (if tag \<in> set (read_tags this)
                                  then remove1 tag (read_tags this)
                                  else read_tags this @ [tag])\<rparr>) this"
  by (simp add: toggleTag_def get_data_eq splice1_indexOf)

lemma onKeyUp_eq:
  "onKeyUp e this =
     (if (code e = ''Backspace'' \<or> code e = ''Delete'')
         \<and> textContent (childNodes (this_textElement this)) = []
      then Inr (this\<lparr>this_textElement := (this_textElement this)\<lparr>childNodes := []\<rparr>\<rparr>)
      else Inr this)"
  by (simp add: onKeyUp_def parse_inline_empty)

lemma innerHTML_append: "innerHTML (a @ b) = innerHTML a @ innerHTML b"
  by (simp add: innerHTML_def)

lemma clean_append: "clean (a @ b) = (clean a \<and> clean b)"
  by (simp add: clean_def textContent_def)

lemma read_after_Inr: "read_after (Inr this) = Inr \<lparr>text = Some (read_text this), tags = Some (read_tags this)\<rparr>"
  by (simp add: read_after_def get_data_eq)

section \<open>More on the setter\<close>

lemma set_data_tags:
  assumes "set_data d this = Inr this'"
    and "\<forall>t \<in> set (or_empty_array (tags (case d of None \<Rightarrow> \<lparr>text = None, tags = None\<rparr> | Some x \<Rightarrow> x))). writable t"
  shows "read_tags this' = or_empty_array (tags (case d of None \<Rightarrow> \<lparr>text = None, tags = None\<rparr> | Some x \<Rightarrow> x))"
proof -
  define ts where "ts = or_empty_array (tags (case d of None \<Rightarrow> \<lparr>text = None, tags = None\<rparr> | Some x \<Rightarrow> x))"
  from assms(2) obtain css where ts: "ts = map innerHTML css"
    and a: "\<forall>c \<in> set css. fits_attribute (innerHTML c)"
    unfolding ts_def[symmetric] by (rule writable_content)
  have p: "parse_nodes (concat (map tag_markup ts)) = Some (map tag_span css)"
    unfolding ts by (rule parse_nodes_tags[OF a])
  from assms(1) have "childNodes (this_tagsElement this') = map tag_span css"
    using p by (auto simp: set_data_def Let_def ts_def split: option.splits)
  then show ?thesis
    unfolding ts_def[symmetric] by (simp add: read_tags_def read_tag_spans ts)
qed

text \<open>Writable tags are read back as they are written, whatever the text.\<close>

lemma set_data_tags_written:
  assumes "modelled_text t" and "\<forall>x \<in> set ts. writable x"
  obtains this' where "set_data (Some \<lparr>text = Some t, tags = Some ts\<rparr>) this = Inr this'"
    and "read_tags this' = ts"
proof -
  from assms(1) obtain tc where tc: "parse_inline t = Some tc"
    by (auto simp: modelled_text_def)
  from assms(2) obtain css where ts: "ts = map innerHTML css"
    and a: "\<forall>c \<in> set css. fits_attribute (innerHTML c)"
    by (rule writable_content)
  have p: "parse_nodes (concat (map tag_markup ts)) = Some (map tag_span css)"
    unfolding ts by (rule parse_nodes_tags[OF a])
  define this' where "this' = this\<lparr>this_data := \<lparr>text = Some t, tags = Some ts\<rparr>,
                     this_textElement := (this_textElement this)\<lparr>childNodes := tc\<rparr>,
                     this_tagsElement := (this_tagsElement this)\<lparr>childNodes := map tag_span css\<rparr>\<rparr>"
  have 1: "set_data (Some \<lparr>text = Some t, tags = Some ts\<rparr>) this = Inr this'"
    by (simp add: set_data_def tc p this'_def)
  have 2: "read_tags this' = ts"
    by (simp add: this'_def read_tags_def read_tag_spans ts)
  from 1 2 show ?thesis by (rule that)
qed

text \<open>Serialised content is within the parser model, with or without NUL and carriage return.\<close>

lemma modelled_text_char:
  assumes "modelled_text r"
  shows "modelled_text (escape_char c @ r)"
proof -
  from assms obtain ts bs where t: "tokenize r = Some ts" and b: "build_inline ts = Some bs"
    by (auto simp: modelled_text_def parse_inline_def split: option.splits)
  have "\<exists>ts' bs'. tokenize (escape_char c @ r) = Some ts' \<and> build_inline ts' = Some bs'"
  proof (cases "c = NUL \<or> c = CR")
    case False
    then have "tokenize (escape_char c @ r) = Some (TChar c # ts)"
      by (simp add: tokenize_escape_char t)
    with b show ?thesis by simp
  next
    case True
    then have e: "escape_char c = [c]" by (rule escape_char_control)
    from True have n: "c \<noteq> CHR ''<''" "c \<noteq> CHR ''&''"
      by (auto simp: NUL_def CR_def)
    from True have "tokenize (c # r) = Some ts \<or> tokenize (c # r) = Some (TChar LF # ts)"
      using n by (auto simp: tokenize.simps(2) t NUL_def CR_def)
    with b e show ?thesis by auto
  qed
  then show ?thesis
    by (auto simp: modelled_text_def parse_inline_def)
qed

lemma modelled_text_escape: "modelled_text r \<Longrightarrow> modelled_text (escape s @ r)"
proof (induction s)
  case Nil
  then show ?case by (simp add: escape_def)
next
  case (Cons c s)
  then have "modelled_text (escape_char c @ (escape s @ r))"
    by (intro modelled_text_char) simp
  then show ?case by (simp add: escape_def)
qed

lemma modelled_text_br:
  assumes "modelled_text r"
  shows "modelled_text (''<br>'' @ r)"
proof -
  from assms obtain ts bs where t: "tokenize r = Some ts" and b: "build_inline ts = Some bs"
    by (auto simp: modelled_text_def parse_inline_def split: option.splits)
  have "tokenize (''<br>'' @ r) = Some (TBr # ts)"
    by (simp only: tokenize_br t prepend_Some) simp
  with b show ?thesis
    by (simp add: modelled_text_def parse_inline_def)
qed

lemma modelled_text_innerHTML: "modelled_text (innerHTML cs)"
proof -
  have "modelled_text (innerHTML cs @ [])"
  proof (induction cs)
    case Nil
    show ?case by (simp add: innerHTML_def modelled_text_def parse_inline_def)
  next
    case (Cons x cs)
    show ?case
    proof (cases x)
      case (Text s)
      have "modelled_text (escape s @ (innerHTML cs @ []))"
        using Cons by (rule modelled_text_escape)
      with Text show ?thesis by (simp add: innerHTML_Cons)
    next
      case Br
      have "modelled_text (''<br>'' @ (innerHTML cs @ []))"
        using Cons by (rule modelled_text_br)
      with Br show ?thesis by (simp add: innerHTML_Cons)
    qed
  qed
  then show ?thesis by simp
qed

section \<open>Frame: what the calls leave alone\<close>

lemma apply_call_frame:
  assumes "apply_call c this = Inr this'"
  shows "this_containerElement this' = this_containerElement this"
    and "this_preserveBlank this' = this_preserveBlank this"
    and "node_id (this_textElement this') = node_id (this_textElement this)"
    and "node_id (this_tagsElement this') = node_id (this_tagsElement this)"
proof -
  have "this_containerElement this' = this_containerElement this
        \<and> this_preserveBlank this' = this_preserveBlank this
        \<and> node_id (this_textElement this') = node_id (this_textElement this)
        \<and> node_id (this_tagsElement this') = node_id (this_tagsElement this)"
  proof (cases c)
    case (Set_data d)
    with assms show ?thesis by (auto dest: set_data_frame)
  next
    case Get_data
    with assms show ?thesis by (auto simp: get_data_eq)
  next
    case (Merge dat)
    with assms show ?thesis
      by (auto simp: merge_eq split: option.splits dest: set_data_frame)
  next
    case (OnPaste ev)
    with assms show ?thesis by (auto simp: onPaste_eq dest: set_data_frame)
  next
    case (ToggleTag tag)
    with assms show ?thesis by (auto simp: toggleTag_eq dest: set_data_frame)
  next
    case (OnKeyUp e)
    with assms show ?thesis by (auto simp: onKeyUp_eq split: if_splits)
  next
    case Render
    with assms show ?thesis by (auto simp: render_def)
  next
    case (UserEdit cs)
    with assms show ?thesis by auto
  qed
  then show "this_containerElement this' = this_containerElement this"
    and "this_preserveBlank this' = this_preserveBlank this"
    and "node_id (this_textElement this') = node_id (this_textElement this)"
    and "node_id (this_tagsElement this') = node_id (this_tagsElement this)"
    by simp_all
qed

lemma run_frame:
  "run cs this = Inr this' \<Longrightarrow>
   this_containerElement this' = this_containerElement this
   \<and> this_preserveBlank this' = this_preserveBlank this
   \<and> node_id (this_textElement this') = node_id (this_textElement this)
   \<and> node_id (this_tagsElement this') = node_id (this_tagsElement this)"
proof (induction cs arbitrary: this)
  case Nil
  then show ?case by simp
next
  case (Cons c cs)
  from Cons.prems obtain this1 where 1: "apply_call c this = Inr this1"
    and 2: "run cs this1 = Inr this'"
    by (auto split: sum.splits)
  from Cons.IH[OF 2] apply_call_frame[OF 1] show ?case by simp
qed

section \<open>Construction\<close>

lemma constructor_Inr:
  assumes "constructor doc p = Inr this0"
  obtains rec0 where
    "set_data (Some \<lparr>text = Some (or_empty_string (text (data p))),
                     tags = Some (or_empty_array (tags (data p)))\<rparr>) rec0 = Inr this0"
    and "node_id (this_containerElement rec0) = doc + 2"
    and "childNodes (this_containerElement rec0) = [doc, doc + 1]"
    and "node_id (this_textElement rec0) = doc"
    and "node_id (this_tagsElement rec0) = doc + 1"
    and "this_preserveBlank rec0 = (preserveBlank (config p) = Some True)"
    and "this_placeholder rec0 = (case placeholder (config p) of None \<Rightarrow> [] | Some s \<Rightarrow> s)"
  using assms
  by (auto simp: constructor_def drawView_def classList_add_def createElement_def Let_def
        DEFAULT_PLACEHOLDER_def
      split: sum.splits if_splits option.splits)

lemma constructor_frame:
  assumes "constructor doc p = Inr this0"
  shows "node_id (this_containerElement this0) = doc + 2"
    and "childNodes (this_containerElement this0) = [doc, doc + 1]"
    and "node_id (this_textElement this0) = doc"
    and "node_id (this_tagsElement this0) = doc + 1"
    and "this_preserveBlank this0 = (preserveBlank (config p) = Some True)"
    and "this_placeholder this0 = (case placeholder (config p) of None \<Rightarrow> [] | Some s \<Rightarrow> s)"
proof -
  from assms obtain rec0 where
    s: "set_data (Some \<lparr>text = Some (or_empty_string (text (data p))),
                     tags = Some (or_empty_array (tags (data p)))\<rparr>) rec0 = Inr this0"
    and r: "node_id (this_containerElement rec0) = doc + 2"
      "childNodes (this_containerElement rec0) = [doc, doc + 1]"
      "node_id (this_textElement rec0) = doc"
      "node_id (this_tagsElement rec0) = doc + 1"
      "this_preserveBlank rec0 = (preserveBlank (config p) = Some True)"
      "this_placeholder rec0 = (case placeholder (config p) of None \<Rightarrow> [] | Some s \<Rightarrow> s)"
    by (rule constructor_Inr)
  from set_data_frame[OF s] r
  show "node_id (this_containerElement this0) = doc + 2"
    and "childNodes (this_containerElement this0) = [doc, doc + 1]"
    and "node_id (this_textElement this0) = doc"
    and "node_id (this_tagsElement this0) = doc + 1"
    and "this_preserveBlank this0 = (preserveBlank (config p) = Some True)"
    and "this_placeholder this0 = (case placeholder (config p) of None \<Rightarrow> [] | Some s \<Rightarrow> s)"
    by simp_all
qed

lemma constructor_tags:
  assumes "constructor doc p = Inr this0"
    and "list_all plain (or_empty_array (tags (data p)))"
  shows "read_tags this0 = or_empty_array (tags (data p))"
proof -
  from assms(1) obtain rec0 where
    s: "set_data (Some \<lparr>text = Some (or_empty_string (text (data p))),
                     tags = Some (or_empty_array (tags (data p)))\<rparr>) rec0 = Inr this0"
    by (rule constructor_Inr)
  from set_data_tags[OF s] assms(2) show ?thesis
    by (simp add: list_all_iff plain_writable)
qed

section \<open>The tags stay plain and free of duplicates\<close>

lemma plain_all_writable: "list_all plain ts \<Longrightarrow> \<forall>t \<in> set ts. writable t"
  by (simp add: list_all_iff plain_writable)

lemma tags_invariant_step:
  assumes "tags_invariant this" and "tags_input_ok c" and "apply_call c this = Inr this'"
  shows "tags_invariant this'"
proof (cases c)
  case (Set_data d)
  show ?thesis
  proof (cases d)
    case None
    with Set_data assms(3) have "read_tags this' = []"
      using set_data_tags[of None this this'] by simp
    then show ?thesis by (simp add: tags_invariant_def)
  next
    case (Some x)
    with Set_data assms(2) have ok: "distinct (or_empty_array (tags x))"
      "list_all plain (or_empty_array (tags x))" by simp_all
    with Set_data Some assms(3) have "read_tags this' = or_empty_array (tags x)"
      using set_data_tags[of "Some x" this this'] by (simp add: plain_all_writable)
    with ok show ?thesis by (simp add: tags_invariant_def)
  qed
next
  case Get_data
  with assms show ?thesis by (auto simp: get_data_eq tags_invariant_def)
next
  case (Merge dat)
  with assms(3) obtain inc where inc: "tags dat = Some inc"
    and s: "set_data (Some \<lparr>text = Some (read_text this @ ToString (text dat)),
                          tags = Some (keep_first (read_tags this @ inc))\<rparr>) this = Inr this'"
    by (auto simp: merge_eq split: option.splits)
  from assms(1,2) Merge inc have pl: "list_all plain (keep_first (read_tags this @ inc))"
    by (auto simp: tags_invariant_def list_all_iff set_keep_first)
  with set_data_tags[OF s] have "read_tags this' = keep_first (read_tags this @ inc)"
    by (simp add: plain_all_writable)
  with pl show ?thesis by (simp add: tags_invariant_def distinct_keep_first)
next
  case (OnPaste ev)
  with assms(3) have
    s: "set_data (Some \<lparr>text = Some (innerHTML (detail_data ev)), tags = Some (read_tags this)\<rparr>)
          this = Inr this'"
    by (simp add: onPaste_eq)
  have "\<forall>t \<in> set (read_tags this). writable t"
    using assms(1) by (simp add: tags_invariant_def list_all_iff plain_writable)
  with set_data_tags[OF s] have "read_tags this' = read_tags this"
    by simp
  with assms(1) show ?thesis by (simp add: tags_invariant_def)
next
  case (ToggleTag tag)
  define ts where "ts = (if tag \<in> set (read_tags this) then remove1 tag (read_tags this)
                         else read_tags this @ [tag])"
  from ToggleTag assms(3) have
    s: "set_data (Some \<lparr>text = Some (read_text this), tags = Some ts\<rparr>) this = Inr this'"
    by (simp add: toggleTag_eq ts_def)
  from assms(1,2) ToggleTag have ok: "distinct ts" "list_all plain ts"
    by (auto simp: ts_def tags_invariant_def list_all_iff dest: notin_set_remove1)
  with set_data_tags[OF s] have "read_tags this' = ts"
    by (simp add: plain_all_writable)
  with ok show ?thesis by (simp add: tags_invariant_def)
next
  case (OnKeyUp e)
  with assms show ?thesis
    by (auto simp: onKeyUp_eq tags_invariant_def read_tags_def split: if_splits)
next
  case Render
  with assms show ?thesis by (auto simp: render_def)
next
  case (UserEdit cs)
  with assms show ?thesis by (auto simp: tags_invariant_def read_tags_def)
qed

lemma tags_invariant_run:
  "tags_invariant this \<Longrightarrow> list_all tags_input_ok cs \<Longrightarrow> run cs this = Inr this' \<Longrightarrow>
   tags_invariant this'"
proof (induction cs arbitrary: this)
  case Nil
  then show ?case by simp
next
  case (Cons c cs)
  from Cons.prems(3) obtain this1 where 1: "apply_call c this = Inr this1"
    and 2: "run cs this1 = Inr this'"
    by (auto split: sum.splits)
  from Cons.prems(1,2) 1 have "tags_invariant this1"
    by (auto intro: tags_invariant_step)
  with Cons.prems(2) 2 show ?case by (auto intro: Cons.IH)
qed

section \<open>Toggling\<close>

lemma in_model_text: "in_model this \<Longrightarrow> clean (childNodes (this_textElement this))"
  by (simp add: in_model_def)

lemma toggleTag_step:
  assumes "in_model this" and "plain tag"
  obtains this' where "toggleTag tag this = Inr this'"
    and "read_tags this' = (if tag \<in> set (read_tags this) then remove1 tag (read_tags this)
                            else read_tags this @ [tag])"
    and "read_text this' = read_text this" and "in_model this'"
proof -
  define ts where "ts = (if tag \<in> set (read_tags this) then remove1 tag (read_tags this)
                         else read_tags this @ [tag])"
  have sub: "set ts \<subseteq> insert tag (set (read_tags this))"
    using set_remove1_subset[of tag "read_tags this"] by (auto simp: ts_def)
  then have w: "\<forall>t \<in> set ts. writable t"
    using plain_writable[OF assms(2)] in_model_writable[OF assms(1)] by auto
  from sub have a: "list_all (list_all attr_char) ts"
    using plain_attr[OF assms(2)] assms(1) by (auto simp: in_model_def list_all_iff)
  from in_model_text[OF assms(1)] w obtain this' where
    "set_data (Some \<lparr>text = Some (innerHTML (childNodes (this_textElement this))),
                     tags = Some ts\<rparr>) this = Inr this'"
    and "read_text this' = innerHTML (childNodes (this_textElement this))"
    and "read_tags this' = ts" and "clean (childNodes (this_textElement this'))"
    by (rule set_data_written)
  with a have "toggleTag tag this = Inr this'" and "read_tags this' = ts"
    and "read_text this' = read_text this" and "in_model this'"
    by (simp_all add: toggleTag_eq ts_def read_text_def in_model_def)
  then show ?thesis unfolding ts_def by (rule that)
qed

section \<open>Merging\<close>

lemma keep_first_append_distinct:
  assumes "distinct xs"
  shows "keep_first (xs @ ys) = xs @ keep_first (filter (\<lambda>y. y \<notin> set xs) ys)"
proof -
  have "Set_add_all acc (as @ bs) = Set_add_all (Set_add_all acc as) bs" for acc as bs :: "'a list"
    by (induction as arbitrary: acc) simp_all
  then have "Set_add_all [] (xs @ ys) = Set_add_all (Set_add_all [] xs) ys" .
  moreover have "Set_add_all [] xs = xs"
    using assms by (simp add: Set_add_all_keep_first keep_first_distinct)
  ultimately show ?thesis
    using Set_add_all_keep_first[of "[]" "xs @ ys"] Set_add_all_keep_first[of xs ys] by simp
qed

lemma merge_written:
  assumes "rewritable this" and "tags dat = Some inc" and "list_all safe_identifier inc"
    and "clean cs" and "ToString (text dat) = innerHTML cs"
  obtains this' where "merge dat this = Inr this'"
    and "read_text this' = read_text this @ ToString (text dat)"
    and "read_tags this' = keep_first (read_tags this @ inc)"
proof -
  have w: "\<forall>t \<in> set (keep_first (read_tags this @ inc)). writable t"
    using assms(3) rewritable_writable[OF assms(1)]
    by (auto simp: set_keep_first list_all_iff safe_writable)
  have c: "clean (childNodes (this_textElement this) @ cs)"
    using assms(1,4) by (simp add: clean_append rewritable_def)
  from c w obtain this' where
    "set_data (Some \<lparr>text = Some (innerHTML (childNodes (this_textElement this) @ cs)),
                     tags = Some (keep_first (read_tags this @ inc))\<rparr>) this = Inr this'"
    and "read_text this' = innerHTML (childNodes (this_textElement this) @ cs)"
    and "read_tags this' = keep_first (read_tags this @ inc)"
    by (rule set_data_written)
  then have "merge dat this = Inr this'"
    and "read_text this' = read_text this @ ToString (text dat)"
    and "read_tags this' = keep_first (read_tags this @ inc)"
    by (simp_all add: merge_eq assms(2,5) innerHTML_append read_text_def)
  then show ?thesis by (rule that)
qed

section \<open>Validating\<close>

lemma trim_empty_iff: "trim s = [] \<longleftrightarrow> list_all js_whitespace s"
proof -
  define d where "d = dropWhile js_whitespace s"
  have 1: "trim s = [] \<longleftrightarrow> (\<forall>x \<in> set d. js_whitespace x)"
    by (simp add: trim_def d_def dropWhile_eq_Nil_conv)
  have 2: "(\<forall>x \<in> set d. js_whitespace x) \<longleftrightarrow> d = []"
  proof
    assume a: "\<forall>x \<in> set d. js_whitespace x"
    show "d = []"
    proof (rule ccontr)
      assume n: "d \<noteq> []"
      then have "\<not> js_whitespace (hd d)"
        unfolding d_def by (rule hd_dropWhile)
      moreover from n have "hd d \<in> set d" by simp
      ultimately show False using a by blast
    qed
  next
    assume "d = []"
    then show "\<forall>x \<in> set d. js_whitespace x" by simp
  qed
  have 3: "d = [] \<longleftrightarrow> (\<forall>x \<in> set s. js_whitespace x)"
    by (simp add: d_def dropWhile_eq_Nil_conv)
  from 1 2 3 show ?thesis by (simp add: list_all_iff)
qed

section \<open>Reading after a write\<close>

lemma read_after_set_data:
  "read_after (set_data d this) =
     (case parse_inline (or_empty_string
             (text (case d of None \<Rightarrow> \<lparr>text = None, tags = None\<rparr> | Some x \<Rightarrow> x))) of
        None \<Rightarrow> Inl Unmodelled
      | Some tc \<Rightarrow>
          (case parse_nodes (concat (map tag_markup (or_empty_array
                  (tags (case d of None \<Rightarrow> \<lparr>text = None, tags = None\<rparr> | Some x \<Rightarrow> x))))) of
             None \<Rightarrow> Inl Unmodelled
           | Some ns \<Rightarrow>
               Inr \<lparr>text = Some (innerHTML tc),
                    tags = Some (map innerHTML (querySelectorAll_ce_tag ns))\<rparr>))"
  by (simp add: set_data_def read_after_def get_data_eq read_text_def read_tags_def Let_def
        split: option.split)

section \<open>The claims\<close>

lemmas eval_defs = constructor_def drawView_def classList_add_def valid_token_def
  createElement_def set_data_def get_data_def read_after_def and_then_def example_params_def
  example_api_def example_block_def parse_inline_def parse_nodes_def tag_markup_def
  innerHTML_def escape_def escape_char_def class_tokens_def ascii_whitespace_def
  starts_reference_def ascii_alphanumeric_def DEFAULT_PLACEHOLDER_def NUL_def CR_def LF_def
  NBSP_def apos_def attr_char_def tokenize.simps(2) Let_def

text \<open>The example block is what the constructor returns for empty saved data.\<close>

lemma example_block_constructed:
  "constructor 0 (example_params \<lparr>text = None, tags = None\<rparr>) = Inr example_block"
  by (simp add: eval_defs)

lemmas example_defs = example_with_def read_text_def read_tags_def in_model_def clean_def
  textContent_def plain_def plain_char_def rewritable_def fits_attribute_def rest_char_def
  safe_identifier_def safe_char_def

text \<open>The example block with text \<^verbatim>\<open>A\<close> and tag \<^verbatim>\<open>y\<close> is what the constructor returns for them.\<close>

lemma example_with_constructed:
  "constructor 0 (example_params \<lparr>text = Some ''A'', tags = Some [''y'']\<rparr>)
   = Inr (example_with [Text ''A''] [''y''])"
  by (simp add: eval_defs example_defs)

subsection \<open>C1: writing a record and reading it back\<close>




subsection \<open>C2: no duplicate tags\<close>

text \<open>
  C2, as the code has it: when the constructor data and every record given to the setter
  have tags without duplicates, the tags read from the block have no duplicates after
  construction and after every later call: setter, getter, merge, paste, toggle, key-up,
  render and user edit. Merge removes duplicates, toggle tests before it adds, paste
  writes back what it read; the constructor and the setter write the tags as they are
  given. The identifiers are plain (none of \<^verbatim>\<open>< > & '\<close>, NUL, carriage return, U+00A0).
\<close>

theorem C2_no_duplicates_from_duplicate_free_input:
  assumes "constructor doc p = Inr this0"
    and "distinct (or_empty_array (tags (data p)))"
    and "list_all plain (or_empty_array (tags (data p)))"
    and "list_all tags_input_ok cs"
    and "run cs this0 = Inr this"
  shows "distinct (read_tags this)"
proof -
  from constructor_tags[OF assms(1,3)] assms(2,3) have "tags_invariant this0"
    by (simp add: tags_invariant_def)
  from tags_invariant_run[OF this assms(4,5)] show ?thesis
    by (simp add: tags_invariant_def)
qed

text \<open>
  C2 at an example: a block built with the tags \<^verbatim>\<open>a\<close>, \<^verbatim>\<open>b\<close>, then a merge that
  brings \<^verbatim>\<open>b\<close>, \<^verbatim>\<open>c\<close>, \<^verbatim>\<open>c\<close>, a toggle of \<^verbatim>\<open>a\<close>, a paste and a toggle of \<^verbatim>\<open>d\<close>.
\<close>

theorem C2_witness:
  "\<exists>this0 this.
     constructor 0 (example_params \<lparr>text = Some ''x'', tags = Some [''a'', ''b'']\<rparr>) = Inr this0
     \<and> distinct [''a'', ''b''] \<and> list_all plain [''a'', ''b'']
     \<and> list_all tags_input_ok
          [Merge \<lparr>text = Some ''y'', tags = Some [''b'', ''c'', ''c'']\<rparr>, ToggleTag ''a'',
           OnPaste \<lparr>detail_data = [Text ''z'']\<rparr>, ToggleTag ''d'']
     \<and> run [Merge \<lparr>text = Some ''y'', tags = Some [''b'', ''c'', ''c'']\<rparr>, ToggleTag ''a'',
            OnPaste \<lparr>detail_data = [Text ''z'']\<rparr>, ToggleTag ''d''] this0 = Inr this
     \<and> read_tags this = [''b'', ''c'', ''d'']
     \<and> distinct (read_tags this)"
proof -
  define p where "p = example_params \<lparr>text = Some ''x'', tags = Some [''a'', ''b'']\<rparr>"
  define cs where "cs = [Merge \<lparr>text = Some ''y'', tags = Some [''b'', ''c'', ''c'']\<rparr>,
      ToggleTag ''a'', OnPaste \<lparr>detail_data = [Text ''z'']\<rparr>, ToggleTag ''d'']"
  have "\<exists>this0 this. constructor 0 p = Inr this0 \<and> run cs this0 = Inr this
           \<and> read_tags this = [''b'', ''c'', ''d'']"
    by (simp add: p_def cs_def eval_defs merge_def onPaste_def toggleTag_def spread_def
          ToString_def new_Set_def splice1_def read_tags_def)
  then obtain this0 this where c: "constructor 0 p = Inr this0"
    and r: "run cs this0 = Inr this" and rt: "read_tags this = [''b'', ''c'', ''d'']"
    by blast
  have t: "or_empty_array (tags (data p)) = [''a'', ''b'']"
    by (simp add: p_def example_params_def)
  have pl: "list_all plain [''a'', ''b'']"
    by (simp add: plain_def plain_char_def NUL_def CR_def NBSP_def apos_def)
  have ok: "list_all tags_input_ok cs"
    by (simp add: cs_def plain_def plain_char_def NUL_def CR_def NBSP_def apos_def)
  have h2: "distinct (or_empty_array (tags (data p)))"
    by (simp add: t)
  have h3: "list_all plain (or_empty_array (tags (data p)))"
    unfolding t by (rule pl)
  have "distinct (read_tags this)"
    using c h2 h3 ok r by (rule C2_no_duplicates_from_duplicate_free_input)
  moreover have "distinct [''a'', ''b'']"
    by simp
  ultimately show ?thesis
    using c r rt pl ok unfolding p_def cs_def by blast
qed

text \<open>
  C2 as stated fails: the constructor writes the duplicate tags \<^verbatim>\<open>a\<close>, \<^verbatim>\<open>a\<close> of its data
  as two elements, and the getter reads both.
\<close>

theorem C2_counterexample:
  "read_after (constructor 0 (example_params \<lparr>text = Some ''x'', tags = Some [''a'', ''a'']\<rparr>))
   = Inr \<lparr>text = Some ''x'', tags = Some [''a'', ''a'']\<rparr>"
  by (simp add: eval_defs)

subsection \<open>C3: merge\<close>




subsection \<open>C4: validate\<close>

text \<open>
  C4: in a block constructed with configuration \<open>config p\<close>, after any calls,
  \<^verbatim>\<open>validate(savedData)\<close> on a record with text \<open>t\<close> returns false when the trimmed
  \<open>t\<close> is empty and \<^verbatim>\<open>preserveBlank\<close> is not set to true, and true otherwise; the tags of
  the record do not matter. The trimmed text is empty exactly when every character is
  white space.
\<close>

theorem C4_validate:
  assumes "constructor doc p = Inr this0" and "run cs this0 = Inr this"
    and "text savedData = Some t"
  shows "validate savedData this
           = Inr (\<not> (trim t = [] \<and> preserveBlank (config p) \<noteq> Some True))
         \<and> validate (savedData\<lparr>tags := x\<rparr>) this = validate savedData this
         \<and> (trim t = [] \<longleftrightarrow> list_all js_whitespace t)"
  using run_frame[OF assms(2)] constructor_frame(5)[OF assms(1)] assms(3)
  by (simp add: validate_def trim_empty_iff)

text \<open>
  C4 at an example: with the default configuration three blanks are rejected and
  \<^verbatim>\<open>hello\<close> is accepted.
\<close>

theorem C4_witness:
  "\<exists>this0 this.
     constructor 0 (example_params \<lparr>text = Some ''A'', tags = Some [''y'']\<rparr>) = Inr this0
     \<and> run [ToggleTag ''feature''] this0 = Inr this
     \<and> validate \<lparr>text = Some ''   '', tags = Some [''y'']\<rparr> this = Inr False
     \<and> validate \<lparr>text = Some ''hello'', tags = Some []\<rparr> this = Inr True"
proof -
  define p where "p = example_params \<lparr>text = Some ''A'', tags = Some [''y'']\<rparr>"
  define cs where "cs = [ToggleTag ''feature'']"
  have "\<exists>this0 this. constructor 0 p = Inr this0 \<and> run cs this0 = Inr this"
    by (simp add: p_def cs_def eval_defs toggleTag_def splice1_def)
  then obtain this0 this where c: "constructor 0 p = Inr this0" and r: "run cs this0 = Inr this"
    by blast
  have pb: "preserveBlank (config p) = None"
    by (simp add: p_def example_params_def)
  have "validate \<lparr>text = Some ''   '', tags = Some [''y'']\<rparr> this = Inr False"
    using C4_validate[OF c r, of "\<lparr>text = Some ''   '', tags = Some [''y'']\<rparr>" "''   ''"]
    by (simp add: pb trim_def js_whitespace_def)
  moreover have "validate \<lparr>text = Some ''hello'', tags = Some []\<rparr> this = Inr True"
    using C4_validate[OF c r, of "\<lparr>text = Some ''hello'', tags = Some []\<rparr>" "''hello''"]
    by (simp add: pb trim_def js_whitespace_def NBSP_def)
  ultimately show ?thesis
    using c r unfolding p_def cs_def by blast
qed

subsection \<open>C5: missing input\<close>

text \<open>
  C5, as the code has it: the constructor and the data setter substitute the defaults
  for missing input (absent text: the empty string, absent tags: the empty sequence, absent
  placeholder: the empty string, absent \<^verbatim>\<open>preserveBlank\<close>: false) and never throw a
  TypeError; with a valid style class from the editor the constructor returns a block for
  data and configuration without any field. \<^verbatim>\<open>validate\<close> returns a boolean when the text
  is present and \<^verbatim>\<open>merge\<close> throws no TypeError when the incoming tags are present;
  neither substitutes a default.
\<close>

theorem C5_defaults_in_constructor_and_setter:
  "constructor doc p
     = constructor doc
         (p\<lparr>data := \<lparr>text = Some (or_empty_string (text (data p))),
                    tags = Some (or_empty_array (tags (data p)))\<rparr>,
            config := \<lparr>placeholder =
                         Some (case placeholder (config p) of None \<Rightarrow> [] | Some s \<Rightarrow> s),
                       preserveBlank =
                         Some (case preserveBlank (config p) of None \<Rightarrow> False | Some b \<Rightarrow> b)\<rparr>\<rparr>)
   \<and> constructor doc p \<noteq> Inl TypeError
   \<and> (valid_token (styles_block (api p)) \<longrightarrow>
        (\<exists>this0. constructor doc
                   (p\<lparr>data := \<lparr>text = None, tags = None\<rparr>,
                      config := \<lparr>placeholder = None, preserveBlank = None\<rparr>\<rparr>) = Inr this0
           \<and> read_text this0 = [] \<and> read_tags this0 = []
           \<and> this_placeholder this0 = [] \<and> \<not> this_preserveBlank this0))
   \<and> read_after (set_data None this) = Inr \<lparr>text = Some [], tags = Some []\<rparr>
   \<and> read_after (set_data (Some d) this)
       = read_after (set_data (Some \<lparr>text = Some (or_empty_string (text d)),
                                     tags = Some (or_empty_array (tags d))\<rparr>) this)
   \<and> set_data dd this \<noteq> Inl TypeError
   \<and> (text d \<noteq> None \<longrightarrow> (\<exists>b. validate d this = Inr b))
   \<and> (tags d \<noteq> None \<longrightarrow> merge d this \<noteq> Inl TypeError)"
proof (intro conjI impI)
  show "constructor doc p
     = constructor doc
         (p\<lparr>data := \<lparr>text = Some (or_empty_string (text (data p))),
                    tags = Some (or_empty_array (tags (data p)))\<rparr>,
            config := \<lparr>placeholder =
                         Some (case placeholder (config p) of None \<Rightarrow> [] | Some s \<Rightarrow> s),
                       preserveBlank =
                         Some (case preserveBlank (config p) of None \<Rightarrow> False | Some b \<Rightarrow> b)\<rparr>\<rparr>)"
    by (simp add: constructor_def DEFAULT_PLACEHOLDER_def or_empty_string_def
          or_empty_array_def split: option.split sum.split)
next
  show "constructor doc p \<noteq> Inl TypeError"
    by (auto simp: constructor_def drawView_def classList_add_def Let_def set_data_no_TypeError
          split: sum.splits if_splits)
next
  assume v: "valid_token (styles_block (api p))"
  have "set_data (Some \<lparr>text = Some (innerHTML []), tags = Some (map innerHTML [])\<rparr>) rec0
        = Inr (rec0\<lparr>this_data := \<lparr>text = Some (innerHTML []), tags = Some (map innerHTML [])\<rparr>,
                  this_textElement := (this_textElement rec0)\<lparr>childNodes := merge_text []\<rparr>,
                  this_tagsElement := (this_tagsElement rec0)\<lparr>childNodes := map tag_span []\<rparr>\<rparr>)"
    for rec0
    by (rule set_data_content) simp_all
  then have s: "set_data (Some \<lparr>text = Some [], tags = Some []\<rparr>) rec0
        = Inr (rec0\<lparr>this_data := \<lparr>text = Some [], tags = Some []\<rparr>,
                  this_textElement := (this_textElement rec0)\<lparr>childNodes := []\<rparr>,
                  this_tagsElement := (this_tagsElement rec0)\<lparr>childNodes := []\<rparr>\<rparr>)"
    for rec0
    by (simp add: innerHTML_def)
  show "\<exists>this0. constructor doc
                   (p\<lparr>data := \<lparr>text = None, tags = None\<rparr>,
                      config := \<lparr>placeholder = None, preserveBlank = None\<rparr>\<rparr>) = Inr this0
           \<and> read_text this0 = [] \<and> read_tags this0 = []
           \<and> this_placeholder this0 = [] \<and> \<not> this_preserveBlank this0"
    using v
    by (simp add: constructor_def drawView_def classList_add_def valid_token_def Let_def s
          DEFAULT_PLACEHOLDER_def read_text_def read_tags_def innerHTML_def ascii_whitespace_def)
next
  show "read_after (set_data None this) = Inr \<lparr>text = Some [], tags = Some []\<rparr>"
    by (simp add: read_after_set_data parse_inline_empty parse_nodes_def innerHTML_def)
next
  show "read_after (set_data (Some d) this)
       = read_after (set_data (Some \<lparr>text = Some (or_empty_string (text d)),
                                     tags = Some (or_empty_array (tags d))\<rparr>) this)"
    by (simp add: read_after_set_data or_empty_string_def split: option.split)
next
  show "set_data dd this \<noteq> Inl TypeError"
    by (rule set_data_no_TypeError)
next
  assume "text d \<noteq> None"
  then show "\<exists>b. validate d this = Inr b"
    by (auto simp: validate_def)
next
  assume "tags d \<noteq> None"
  then show "merge d this \<noteq> Inl TypeError"
    by (auto simp: merge_eq set_data_no_TypeError)
qed

text \<open>
  C5 at an example: the example block is built from data and configuration without any
  field.
\<close>

theorem C5_witness:
  "valid_token (styles_block example_api)
   \<and> constructor 0 (example_params \<lparr>text = None, tags = None\<rparr>) = Inr example_block
   \<and> read_text example_block = [] \<and> read_tags example_block = []
   \<and> this_placeholder example_block = [] \<and> \<not> this_preserveBlank example_block
   \<and> validate \<lparr>text = Some ''hello'', tags = None\<rparr> example_block = Inr True
   \<and> merge \<lparr>text = Some ''B'', tags = Some [''x'']\<rparr> example_block \<noteq> Inl TypeError"
proof -
  define p where "p = example_params \<lparr>text = None, tags = None\<rparr>"
  define d1 where "d1 = \<lparr>text = Some ''hello'', tags = (None :: string list option)\<rparr>"
  define d2 where "d2 = \<lparr>text = Some ''B'', tags = Some [''x'']\<rparr>"
  have v: "valid_token (styles_block (api p))"
    by (simp add: p_def eval_defs)
  have e: "p\<lparr>data := \<lparr>text = None, tags = None\<rparr>,
              config := \<lparr>placeholder = None, preserveBlank = None\<rparr>\<rparr> = p"
    by (simp add: p_def example_params_def)
  have c: "constructor 0 p = Inr example_block"
    unfolding p_def by (rule example_block_constructed)
  have "read_text example_block = [] \<and> read_tags example_block = []
        \<and> this_placeholder example_block = [] \<and> \<not> this_preserveBlank example_block"
    using C5_defaults_in_constructor_and_setter[of 0 p example_block d1 None] v
    by (simp add: e c)
  moreover have "\<exists>b. validate d1 example_block = Inr b"
    using C5_defaults_in_constructor_and_setter[of 0 p example_block d1 None]
    by (simp add: d1_def)
  then have "validate d1 example_block = Inr True"
    by (auto simp: d1_def validate_def trim_def js_whitespace_def NBSP_def)
  moreover have "merge d2 example_block \<noteq> Inl TypeError"
    using C5_defaults_in_constructor_and_setter[of 0 p example_block d2 None]
    by (simp add: d2_def)
  moreover have "valid_token (styles_block example_api)"
    using v by (simp add: p_def example_params_def)
  ultimately show ?thesis
    using c unfolding p_def d1_def d2_def by blast
qed

text \<open>
  C5 as stated fails: \<^verbatim>\<open>validate\<close> throws a TypeError on a record without text,
  \<^verbatim>\<open>merge\<close> throws one on a record without tags, and \<^verbatim>\<open>merge\<close> appends
  \<^verbatim>\<open>undefined\<close> for a record without text.
\<close>

theorem C5_counterexample:
  "validate \<lparr>text = None, tags = Some []\<rparr> example_block = Inl TypeError
   \<and> merge \<lparr>text = Some ''B'', tags = None\<rparr> example_block = Inl TypeError
   \<and> read_after (merge \<lparr>text = None, tags = Some []\<rparr> (example_with [Text ''A''] []))
       = Inr \<lparr>text = Some ''Aundefined'', tags = Some []\<rparr>"
  by (simp add: validate_def merge_def spread_def ToString_def new_Set_def eval_defs
        example_with_def)

subsection \<open>C6: paste\<close>




subsection \<open>C7: toggling a tag\<close>

text \<open>
  C7, as the code has it: in a block whose tags have no duplicates (and are in the
  model), for a plain tag identifier, toggling the tag twice returns its membership to what
  it was, the first toggle flips it, a toggle of an absent tag appends it once, and the
  tags have no duplicates after either toggle.
\<close>

theorem C7_toggle_twice_without_duplicates:
  assumes "in_model this" and "distinct (read_tags this)" and "plain tag"
  shows "\<exists>this1 this2.
           toggleTag tag this = Inr this1 \<and> toggleTag tag this1 = Inr this2
           \<and> (tag \<in> set (read_tags this1) \<longleftrightarrow> tag \<notin> set (read_tags this))
           \<and> (tag \<in> set (read_tags this2) \<longleftrightarrow> tag \<in> set (read_tags this))
           \<and> (tag \<notin> set (read_tags this) \<longrightarrow>
                read_tags this1 = read_tags this @ [tag] \<and> read_tags this2 = read_tags this)
           \<and> distinct (read_tags this1) \<and> distinct (read_tags this2)"
proof -
  from assms(1,3) obtain this1 where 1: "toggleTag tag this = Inr this1"
    and t1: "read_tags this1 = (if tag \<in> set (read_tags this) then remove1 tag (read_tags this)
                               else read_tags this @ [tag])"
    and m1: "in_model this1"
    by (rule toggleTag_step)
  from m1 assms(3) obtain this2 where 2: "toggleTag tag this1 = Inr this2"
    and t2: "read_tags this2 = (if tag \<in> set (read_tags this1) then remove1 tag (read_tags this1)
                               else read_tags this1 @ [tag])"
    by (rule toggleTag_step)
  have a: "tag \<in> set (read_tags this1) \<longleftrightarrow> tag \<notin> set (read_tags this)"
    using assms(2) by (simp add: t1)
  have d1: "distinct (read_tags this1)"
    using assms(2) by (simp add: t1)
  have b: "tag \<notin> set (read_tags this) \<Longrightarrow> read_tags this2 = read_tags this"
    by (simp add: t2 t1 remove1_append)
  have c: "tag \<in> set (read_tags this2) \<longleftrightarrow> tag \<in> set (read_tags this)"
    using assms(2) by (auto simp: t2 t1 remove1_append)
  have d2: "distinct (read_tags this2)"
    using d1 a by (auto simp: t2)
  from 1 2 a b c d1 d2 t1 show ?thesis by auto
qed

text \<open>
  C7 at an example: toggling \<^verbatim>\<open>feature\<close> twice in the block with tag \<^verbatim>\<open>y\<close>.
\<close>

theorem C7_witness:
  "in_model (example_with [Text ''A''] [''y''])
   \<and> distinct (read_tags (example_with [Text ''A''] [''y'']))
   \<and> plain ''feature''
   \<and> (\<exists>this1 this2.
         toggleTag ''feature'' (example_with [Text ''A''] [''y'']) = Inr this1
         \<and> toggleTag ''feature'' this1 = Inr this2
         \<and> read_tags this1 = [''y'', ''feature'']
         \<and> read_tags this2 = [''y''])"
proof -
  define this where "this = example_with [Text ''A''] [''y'']"
  have m: "in_model this"
    by (simp add: this_def eval_defs example_defs)
  have r: "read_tags this = [''y'']"
    by (simp add: this_def eval_defs example_defs)
  have d: "distinct (read_tags this)"
    by (simp add: r)
  have pl: "plain ''feature''"
    by (simp add: eval_defs example_defs)
  have "\<exists>this1 this2. toggleTag ''feature'' this = Inr this1
         \<and> toggleTag ''feature'' this1 = Inr this2
         \<and> read_tags this1 = [''y'', ''feature'']
         \<and> read_tags this2 = [''y'']"
    using C7_toggle_twice_without_duplicates[OF m d pl] by (auto simp: r)
  with m d pl show ?thesis
    unfolding this_def by blast
qed

text \<open>
  C7 as stated fails: in the block built from the tags \<^verbatim>\<open>y\<close>, \<^verbatim>\<open>y\<close>, the tag
  \<^verbatim>\<open>y\<close> is present, and after two toggles it is absent: each toggle removes one
  occurrence.
\<close>

theorem C7_counterexample:
  "read_after (constructor 0 (example_params \<lparr>text = Some ''A'', tags = Some [''y'', ''y'']\<rparr>))
     = Inr \<lparr>text = Some ''A'', tags = Some [''y'', ''y'']\<rparr>
   \<and> read_after (and_then
        (and_then (constructor 0 (example_params \<lparr>text = Some ''A'', tags = Some [''y'', ''y'']\<rparr>))
           (toggleTag ''y''))
        (toggleTag ''y''))
     = Inr \<lparr>text = Some ''A'', tags = Some []\<rparr>"
  by (simp add: eval_defs toggleTag_def splice1_def)

subsection \<open>C8: key-up\<close>

text \<open>
  C8: on a key-up event with code Backspace or Delete, when the text content of the
  editable element is empty, its child nodes are removed, so that the text read next is the
  empty string; the tags are not touched. On any other code, and when the text content is
  not empty, the block is unchanged.
\<close>

theorem C8_keyup_clears_empty_text:
  "((code e = ''Backspace'' \<or> code e = ''Delete'')
      \<and> textContent (childNodes (this_textElement this)) = [] \<longrightarrow>
        (\<exists>this'. onKeyUp e this = Inr this'
           \<and> childNodes (this_textElement this') = []
           \<and> read_text this' = []
           \<and> text (fst (get_data this')) = Some []
           \<and> read_tags this' = read_tags this))
   \<and> (code e \<noteq> ''Backspace'' \<and> code e \<noteq> ''Delete'' \<longrightarrow> onKeyUp e this = Inr this)
   \<and> (textContent (childNodes (this_textElement this)) \<noteq> [] \<longrightarrow> onKeyUp e this = Inr this)"
  by (auto simp: onKeyUp_eq get_data_eq read_text_def read_tags_def innerHTML_def)

text \<open>
  C8 at an example: an editable element left with a line break only reads \<^verbatim>\<open><br>\<close>
  before Backspace and the empty string after it; Enter changes nothing.
\<close>

theorem C8_witness:
  "read_text (example_with [Br] [''y'']) = ''<br>''
   \<and> textContent (childNodes (this_textElement (example_with [Br] [''y'']))) = []
   \<and> (\<exists>this'. onKeyUp \<lparr>code = ''Backspace''\<rparr> (example_with [Br] [''y'']) = Inr this'
          \<and> read_text this' = []
          \<and> text (fst (get_data this')) = Some []
          \<and> read_tags this' = [''y''])
   \<and> onKeyUp \<lparr>code = ''Enter''\<rparr> (example_with [Br] [''y'']) = Inr (example_with [Br] [''y''])"
proof -
  define this where "this = example_with [Br] [''y'']"
  have t: "textContent (childNodes (this_textElement this)) = []"
    by (simp add: this_def example_defs)
  have r: "read_text this = ''<br>''" "read_tags this = [''y'']"
    by (simp_all add: this_def eval_defs example_defs)
  have "\<exists>this'. onKeyUp \<lparr>code = ''Backspace''\<rparr> this = Inr this'
          \<and> read_text this' = []
          \<and> text (fst (get_data this')) = Some []
          \<and> read_tags this' = [''y'']"
    using C8_keyup_clears_empty_text[of "\<lparr>code = ''Backspace''\<rparr>" this] t by (auto simp: r)
  moreover have "onKeyUp \<lparr>code = ''Enter''\<rparr> this = Inr this"
    using C8_keyup_clears_empty_text[of "\<lparr>code = ''Enter''\<rparr>" this] by simp
  ultimately show ?thesis
    using t r unfolding this_def by blast
qed

subsection \<open>C9: render\<close>

text \<open>
  C9: after construction and any sequence of calls, \<^verbatim>\<open>render()\<close> returns the container
  element made by the constructor (the third element it creates, which holds the editable
  element and the tag strip), leaves the block as it is, and returns the same again when
  called again.
\<close>

theorem C9_render_returns_the_container_built_at_construction:
  assumes "constructor doc p = Inr this0" and "run cs this0 = Inr this"
  shows "fst (render this) = fst (render this0)
         \<and> node_id (fst (render this)) = doc + 2
         \<and> childNodes (fst (render this))
             = [node_id (this_textElement this), node_id (this_tagsElement this)]
         \<and> snd (render this) = this
         \<and> render (snd (render this)) = render this"
  using run_frame[OF assms(2)] constructor_frame[OF assms(1)]
  by (simp add: render_def)

text \<open>
  C9 at an example: render, toggle, merge, user edit, render.
\<close>

theorem C9_witness:
  "\<exists>this0 this.
     constructor 0 (example_params \<lparr>text = Some ''A'', tags = Some [''y'']\<rparr>) = Inr this0
     \<and> run [Render, ToggleTag ''feature'', Merge \<lparr>text = Some ''B'', tags = Some [''x'']\<rparr>,
            UserEdit [Text ''typed''], Render] this0 = Inr this
     \<and> fst (render this) = fst (render this0)
     \<and> node_id (fst (render this)) = 2"
proof -
  define p where "p = example_params \<lparr>text = Some ''A'', tags = Some [''y'']\<rparr>"
  define cs where "cs = [Render, ToggleTag ''feature'',
      Merge \<lparr>text = Some ''B'', tags = Some [''x'']\<rparr>, UserEdit [Text ''typed''], Render]"
  have "\<exists>this0 this. constructor 0 p = Inr this0 \<and> run cs this0 = Inr this"
    by (simp add: p_def cs_def eval_defs merge_def toggleTag_def spread_def render_def
          ToString_def new_Set_def splice1_def)
  then obtain this0 this where c: "constructor 0 p = Inr this0" and r: "run cs this0 = Inr this"
    by blast
  from C9_render_returns_the_container_built_at_construction[OF c r]
  have "fst (render this) = fst (render this0)" and "node_id (fst (render this)) = 0 + 2"
    by blast+
  then have "fst (render this) = fst (render this0)" and "node_id (fst (render this)) = 2"
    by simp_all
  with c r show ?thesis
    unfolding p_def cs_def by blast
qed

subsection \<open>C10: merge removes duplicates from the whole concatenation\<close>




end
